theory Spec2Isabelle
  imports Main "HOL-Library.Word"
begin

unbundle bit_operations_syntax

section \<open>Indices, errors\<close>

text \<open>
  Row and column indices are \<^verbatim>\<open>unsigned int\<close> in the sources (\<^verbatim>\<open>index\<close>,
  \<^verbatim>\<open>id_index\<close>): 32-bit words, compared as unsigned numbers. Member names of the
  sources end in an underscore (\<^verbatim>\<open>column_\<close>, \<^verbatim>\<open>pivot_\<close>); the underscore is dropped
  here, and the private helpers \<^verbatim>\<open>_add\<close>, \<^verbatim>\<open>_multiply\<close>, ... carry a prefix instead.
\<close>

type_synonym index = "32 word"

text \<open>
  The exceptions the modelled code can throw: \<^verbatim>\<open>std::out_of_range\<close> from a container's
  \<^verbatim>\<open>at\<close>, and \<^verbatim>\<open>std::invalid_argument\<close> with its message.
\<close>

datatype cpp_error = Out_of_range | Invalid_argument string

section \<open>Z2 columns\<close>

text \<open>
  A Z2 column (\<^verbatim>\<open>Z2_vector_column\<close>, \<^verbatim>\<open>Z2_intrusive_list_boundary_column\<close>) holds its
  dimension \<^verbatim>\<open>dim_\<close> and the sequence \<^verbatim>\<open>column_\<close> of its cells. A Z2 cell carries
  nothing but its row index, so the sequence is the list of the row indices in storage
  order. The columns are modelled without the row access option: the cells of a column are
  not mirrored into a row container.
\<close>

record z2_column =
  dim :: int
  column :: "index list"

text \<open>\<^verbatim>\<open>_insert_cell(rowIndex, column)\<close>: a new cell is pushed at the back.\<close>

definition insert_cell :: "index \<Rightarrow> index list \<Rightarrow> index list" where
  "insert_cell rowIndex col = col @ [rowIndex]"

text \<open>
  The main loop of \<^verbatim>\<open>Z2_vector_column::operator+=\<close> together with the two loops that
  follow it. The first argument is what is left of the added range, the second what is left
  of the target, the third is \<^verbatim>\<open>newColumn\<close>.
\<close>

fun add_loop :: "index list \<Rightarrow> index list \<Rightarrow> index list \<Rightarrow> index list" where
  "add_loop (curRowToAdd # toAdd) (curRowTarget # target) newColumn =
     (if curRowToAdd = curRowTarget then add_loop toAdd target newColumn
      else if curRowToAdd < curRowTarget
        then add_loop toAdd (curRowTarget # target) (insert_cell curRowToAdd newColumn)
      else add_loop (curRowToAdd # toAdd) target (newColumn @ [curRowTarget]))"
| "add_loop (curRowToAdd # toAdd) [] newColumn =
     add_loop toAdd [] (insert_cell curRowToAdd newColumn)"
| "add_loop [] (curRowTarget # target) newColumn =
     add_loop [] target (newColumn @ [curRowTarget])"
| "add_loop [] [] newColumn = newColumn"

text \<open>\<^verbatim>\<open>Z2_vector_column::operator+=\<close>, the added range given by its row indices.\<close>

definition z2_add :: "z2_column \<Rightarrow> index list \<Rightarrow> z2_column" where
  "z2_add target source =
     (if source = [] then target
      else if column target = []
        then target\<lparr>column := foldl (\<lambda>c r. insert_cell r c) (column target) source\<rparr>
      else target\<lparr>column := add_loop source (column target) []\<rparr>)"

text \<open>\<^verbatim>\<open>Z2_vector_column::clear()\<close>: every cell is deleted and the vector emptied.\<close>

definition clear :: "z2_column \<Rightarrow> z2_column" where
  "clear c = c\<lparr>column := []\<rparr>"

text \<open>\<^verbatim>\<open>Z2_vector_column::operator*=(unsigned int v)\<close>.\<close>

definition z2_mult :: "z2_column \<Rightarrow> 32 word \<Rightarrow> z2_column" where
  "z2_mult c v = (if v mod 2 = 0 then clear c else c)"

text \<open>
  \<^verbatim>\<open>Z2_vector_column::is_non_zero(rowIndex)\<close>, \<^verbatim>\<open>is_empty()\<close> and
  \<^verbatim>\<open>get_dimension()\<close>.
\<close>

definition is_non_zero :: "z2_column \<Rightarrow> index \<Rightarrow> bool" where
  "is_non_zero c rowIndex = list_ex (\<lambda>v. v = rowIndex) (column c)"

definition is_empty :: "z2_column \<Rightarrow> bool" where
  "is_empty c = (column c = [])"

definition get_dimension :: "z2_column \<Rightarrow> int" where
  "get_dimension c = dim c"

text \<open>
  \<^verbatim>\<open>Z2_intrusive_list_boundary_column::get_pivot()\<close>: the row index of the last cell,
  returned as an \<^verbatim>\<open>int\<close>, or \<^verbatim>\<open>-1\<close> for an empty column.
\<close>

definition get_pivot :: "z2_column \<Rightarrow> int" where
  "get_pivot c = (if column c = [] then - 1 else sint (last (column c)))"

section \<open>Multi-field elements with small characteristics\<close>

text \<open>
  \<^verbatim>\<open>Shared_multi_field_element_with_small_characteristics\<close>: an element is the
  \<^verbatim>\<open>unsigned int element_\<close>; the static \<^verbatim>\<open>productOfAllCharacteristics_\<close> is passed to
  every operation as its first argument \<open>N\<close>.
\<close>

definition UINT_MAX :: "32 word" where
  "UINT_MAX = - 1"

text \<open>\<^verbatim>\<open>_add(v)\<close>: the new value of \<^verbatim>\<open>element_\<close>.\<close>

definition field_add :: "32 word \<Rightarrow> 32 word \<Rightarrow> 32 word \<Rightarrow> 32 word" where
  "field_add N element v =
     (if UINT_MAX - element < v then element + v - N
      else let e = element + v in if e \<ge> N then e - N else e)"

text \<open>\<^verbatim>\<open>_substract(v)\<close>.\<close>

definition field_substract :: "32 word \<Rightarrow> 32 word \<Rightarrow> 32 word \<Rightarrow> 32 word" where
  "field_substract N element v =
     (let e = (if element < v then element + N else element) in e - v)"

text \<open>
  The loop of \<^verbatim>\<open>_multiply(a, b)\<close>: double-and-add, every addition reduced modulo \<open>N\<close>
  before it can overflow.
\<close>

function multiply_loop :: "32 word \<Rightarrow> 32 word \<Rightarrow> 32 word \<Rightarrow> 32 word \<Rightarrow> 32 word" where
  "multiply_loop N a b res =
     (if a \<noteq> 0 then
        let res' = (if a AND 1 \<noteq> 0
                    then (if b \<ge> N - res then res - N else res) + b
                    else res);
            a' = drop_bit 1 a;
            temp_b = (if b \<ge> N - b then b - N else b);
            b' = b + temp_b
        in multiply_loop N a' b' res'
      else res)"
  by pat_completeness auto
termination
proof (relation "measure (\<lambda>(N, a, b, res). unat a)")
  show "wf (measure (\<lambda>(N, a, b, res). unat a))" by simp
next
  fix N a b res :: "32 word" and x xa xb xc :: "32 word"
  assume "a \<noteq> 0" and "xa = drop_bit 1 a"
  then show "((N, xa, xc, x), N, a, b, res) \<in> measure (\<lambda>(N, a, b, res). unat a)"
    by (simp add: drop_bit_eq_div unat_div_distrib unat_gt_0)
qed

declare multiply_loop.simps [simp del]

text \<open>\<^verbatim>\<open>_multiply(a, b)\<close>, with the initial swap that makes \<open>a\<close> the smaller operand.\<close>

definition field_multiply :: "32 word \<Rightarrow> 32 word \<Rightarrow> 32 word \<Rightarrow> 32 word" where
  "field_multiply N a b =
     (if b < a then multiply_loop N b a 0 else multiply_loop N a b 0)"

text \<open>
  \<^verbatim>\<open>operator+=\<close>, \<^verbatim>\<open>operator-=\<close> and \<^verbatim>\<open>operator*=\<close> with another element \<open>f\<close>
  as right operand: they pass \<^verbatim>\<open>f.element_\<close> on.
\<close>

definition operator_plus_eq :: "32 word \<Rightarrow> 32 word \<Rightarrow> 32 word \<Rightarrow> 32 word" where
  "operator_plus_eq N element f = field_add N element f"

definition operator_minus_eq :: "32 word \<Rightarrow> 32 word \<Rightarrow> 32 word \<Rightarrow> 32 word" where
  "operator_minus_eq N element f = field_substract N element f"

definition operator_times_eq :: "32 word \<Rightarrow> 32 word \<Rightarrow> 32 word \<Rightarrow> 32 word" where
  "operator_times_eq N element f = field_multiply N element f"

text \<open>
  \<^verbatim>\<open>_is_prime(const int p)\<close>. The loop variable is a \<^verbatim>\<open>long\<close> and \<open>p\<close> an
  \<^verbatim>\<open>int\<close>, so \<open>i * i\<close> cannot overflow; both are integers here. The loop is entered
  with \<open>i = 5\<close> and \<open>p > 3\<close> only, where the remainder of C is \<open>mod\<close>.
\<close>

function is_prime_loop :: "int \<Rightarrow> int \<Rightarrow> bool" where
  "is_prime_loop p i =
     (if i * i \<le> p
      then (if p mod i = 0 \<or> p mod (i + 2) = 0 then False else is_prime_loop p (i + 6))
      else True)"
  by pat_completeness auto
termination
proof (relation "measure (\<lambda>(p, i). nat (p + 1 - i))")
  show "wf (measure (\<lambda>(p, i). nat (p + 1 - i)))" by simp
next
  fix p i :: int
  assume a: "i * i \<le> p"
  have "i \<le> i * i"
  proof (cases "i \<le> 0")
    case True
    then show ?thesis using zero_le_square [of i] by linarith
  next
    case False
    then have "1 \<le> i" by simp
    then have "i * 1 \<le> i * i" by (intro mult_left_mono) simp_all
    then show ?thesis by simp
  qed
  with a have "i \<le> p" by linarith
  then show "((p, i + 6), p, i) \<in> measure (\<lambda>(p, i). nat (p + 1 - i))" by simp
qed

declare is_prime_loop.simps [simp del]

definition is_prime :: "int \<Rightarrow> bool" where
  "is_prime p =
     (if p \<le> 1 then False
      else if p \<le> 3 then True
      else if p mod 2 = 0 \<or> p mod 3 = 0 then False
      else is_prime_loop p 5)"

text \<open>The static members \<^verbatim>\<open>primes_\<close>, \<^verbatim>\<open>productOfAllCharacteristics_\<close>, \<^verbatim>\<open>partials_\<close>.\<close>

record multi_field =
  primes :: "32 word list"
  productOfAllCharacteristics :: "32 word"
  partials :: "32 word list"

text \<open>
  The first loop of \<^verbatim>\<open>initialize\<close>,
  \<^verbatim>\<open>for (unsigned int i = minimum; i <= maximum; ++i)\<close>. The counter wraps around, so with
  \<^verbatim>\<open>maximum == UINT_MAX\<close> the condition never fails: the loop is a partial function, and
  \<open>None\<close> stands for a run that does not return. \<^verbatim>\<open>_is_prime\<close> takes its argument as
  an \<^verbatim>\<open>int\<close>: the counter is read as a signed number.
\<close>

partial_function (option) primes_loop ::
  "32 word \<Rightarrow> 32 word \<Rightarrow> 32 word list \<Rightarrow> 32 word \<Rightarrow> (32 word list \<times> 32 word) option" where
  "primes_loop i maximum ps product =
     (if i \<le> maximum
      then (if is_prime (sint i) then primes_loop (i + 1) maximum (ps @ [i]) (product * i)
            else primes_loop (i + 1) maximum ps product)
      else Some (ps, product))"

declare primes_loop.simps [code]

text \<open>
  The inner loop of \<^verbatim>\<open>initialize\<close> that raises \<^verbatim>\<open>base\<close> to the power \<^verbatim>\<open>exp\<close>
  into \<^verbatim>\<open>partials_[i]\<close>.
\<close>

function partial_loop :: "32 word \<Rightarrow> 32 word \<Rightarrow> 32 word \<Rightarrow> 32 word \<Rightarrow> 32 word" where
  "partial_loop N ex base part =
     (if ex > 0
      then partial_loop N (drop_bit 1 ex) (field_multiply N base base)
             (if ex AND 1 \<noteq> 0 then field_multiply N part base else part)
      else part)"
  by pat_completeness auto
termination
proof (relation "measure (\<lambda>(N, ex, base, part). unat ex)")
  show "wf (measure (\<lambda>(N, ex, base, part). unat ex))" by simp
next
  fix N ex base part :: "32 word"
  assume "0 < ex"
  then show "((N, drop_bit 1 ex, field_multiply N base base,
               if ex AND 1 \<noteq> 0 then field_multiply N part base else part),
              N, ex, base, part) \<in> measure (\<lambda>(N, ex, base, part). unat ex)"
    by (simp add: drop_bit_eq_div unat_div_distrib unat_gt_0 word_neq_0_conv)
qed

declare partial_loop.simps [simp del]

text \<open>
  \<^verbatim>\<open>initialize(minimum, maximum)\<close>: the exception thrown, or the new static members.
\<close>

definition initialize :: "32 word \<Rightarrow> 32 word \<Rightarrow> (cpp_error + multi_field) option" where
  "initialize minimum maximum =
     (if maximum < 2 then Some (Inl (Invalid_argument ''Characteristic must be strictly positive''))
      else if minimum > maximum then Some (Inl (Invalid_argument ''The given interval is not valid.''))
      else if minimum = maximum \<and> \<not> is_prime (sint minimum)
        then Some (Inl (Invalid_argument ''The given interval does not contain a prime number.''))
      else case primes_loop minimum maximum [] 1 of
             None \<Rightarrow> None
           | Some (ps, N) \<Rightarrow>
               if ps = []
               then Some (Inl (Invalid_argument ''The given interval does not contain a prime number.''))
               else Some (Inr \<lparr>primes = ps, productOfAllCharacteristics = N,
                               partials = map (\<lambda>p. partial_loop N (p - 1) (N div p) 1) ps\<rparr>))"





section \<open>Chain columns\<close>

text \<open>
  \<^verbatim>\<open>Set_chain_column\<close> derives from \<^verbatim>\<open>Set_column\<close>, whose source is not part of the
  files at hand. The chain column only calls four members of its base class; they are
  parameters of the model, collected in a record: \<^verbatim>\<open>Base::operator+=\<close>,
  \<^verbatim>\<open>Base::multiply_and_add(v, column)\<close>, \<^verbatim>\<open>Base::multiply_and_add(column, v)\<close> and
  \<^verbatim>\<open>Base::is_non_zero\<close>. The type \<open>'c\<close> is the state of the base class, \<open>'v\<close> the
  type of the field elements.
\<close>

record ('c, 'v) base_column =
  base_plus_eq :: "'c \<Rightarrow> 'c \<Rightarrow> 'c"
  base_multiply_and_add_target :: "'v \<Rightarrow> 'c \<Rightarrow> 'c \<Rightarrow> 'c"
  base_multiply_and_add_source :: "'c \<Rightarrow> 'c \<Rightarrow> 'v \<Rightarrow> 'c"
  base_is_non_zero :: "'c \<Rightarrow> int \<Rightarrow> bool"

text \<open>
  A chain column: the base class part and the members \<^verbatim>\<open>pivot_\<close> and
  \<^verbatim>\<open>pairedColumn_\<close>. The member \<^verbatim>\<open>pivotToColumnIndex_\<close> points to the dictionary that
  all chain columns of a matrix share; the dictionary is passed to the operations and
  returned by them. Its type is a template parameter; only \<^verbatim>\<open>at\<close> is used, which throws
  \<^verbatim>\<open>std::out_of_range\<close> for a missing key.
\<close>

record 'c chain_column =
  base :: 'c
  pivot :: int
  pairedColumn :: int

type_synonym dictionnary = "int \<rightharpoonup> nat"

text \<open>\<^verbatim>\<open>Set_chain_column::get_pivot()\<close>.\<close>

definition chain_get_pivot :: "'c chain_column \<Rightarrow> int" where
  "chain_get_pivot c = pivot c"

text \<open>
  The statements that follow the call of the base class in \<^verbatim>\<open>operator+=\<close> and in both
  \<^verbatim>\<open>multiply_and_add\<close>: if the cell at the pivot has become zero, the dictionary entries
  of the two pivots are swapped, and so are the \<^verbatim>\<open>pivot_\<close> members of the two columns.
  The result holds the dictionary, \<^verbatim>\<open>*this\<close> and the argument column.
\<close>

definition swap_pivots ::
  "('c, 'v) base_column \<Rightarrow> dictionnary \<Rightarrow> 'c chain_column \<Rightarrow> 'c chain_column
   \<Rightarrow> cpp_error + (dictionnary \<times> 'c chain_column \<times> 'c chain_column)" where
  "swap_pivots ops pivotToColumnIndex this col =
     (if \<not> base_is_non_zero ops (base this) (pivot this)
      then (case (pivotToColumnIndex (pivot this), pivotToColumnIndex (chain_get_pivot col)) of
              (Some a, Some b) \<Rightarrow>
                 Inr (pivotToColumnIndex(pivot this \<mapsto> b, chain_get_pivot col \<mapsto> a),
                      this\<lparr>pivot := pivot col\<rparr>, col\<lparr>pivot := pivot this\<rparr>)
            | _ \<Rightarrow> Inl Out_of_range)
      else Inr (pivotToColumnIndex, this, col))"

text \<open>\<^verbatim>\<open>Set_chain_column::operator+=(Set_chain_column &column)\<close>.\<close>

definition chain_plus_eq ::
  "('c, 'v) base_column \<Rightarrow> dictionnary \<Rightarrow> 'c chain_column \<Rightarrow> 'c chain_column
   \<Rightarrow> cpp_error + (dictionnary \<times> 'c chain_column \<times> 'c chain_column)" where
  "chain_plus_eq ops pivotToColumnIndex this col =
     swap_pivots ops pivotToColumnIndex
       (this\<lparr>base := base_plus_eq ops (base this) (base col)\<rparr>) col"

text \<open>\<^verbatim>\<open>Set_chain_column::multiply_and_add(const Field_element_type& v, Set_chain_column& column)\<close>.\<close>

definition chain_multiply_and_add_target ::
  "('c, 'v) base_column \<Rightarrow> dictionnary \<Rightarrow> 'v \<Rightarrow> 'c chain_column \<Rightarrow> 'c chain_column
   \<Rightarrow> cpp_error + (dictionnary \<times> 'c chain_column \<times> 'c chain_column)" where
  "chain_multiply_and_add_target ops pivotToColumnIndex v this col =
     swap_pivots ops pivotToColumnIndex
       (this\<lparr>base := base_multiply_and_add_target ops v (base this) (base col)\<rparr>) col"

text \<open>\<^verbatim>\<open>Set_chain_column::multiply_and_add(Set_chain_column& column, const Field_element_type& val)\<close>.\<close>

definition chain_multiply_and_add_source ::
  "('c, 'v) base_column \<Rightarrow> dictionnary \<Rightarrow> 'c chain_column \<Rightarrow> 'c chain_column \<Rightarrow> 'v
   \<Rightarrow> cpp_error + (dictionnary \<times> 'c chain_column \<times> 'c chain_column)" where
  "chain_multiply_and_add_source ops pivotToColumnIndex this col val =
     swap_pivots ops pivotToColumnIndex
       (this\<lparr>base := base_multiply_and_add_source ops (base this) (base col) val\<rparr>) col"

text \<open>
  The chain columns of one matrix with their shared dictionary: the store of the live
  columns, each under its column index, and the dictionary.
\<close>

record 'c chain_store =
  chains :: "nat \<rightharpoonup> 'c chain_column"
  pivotToColumnIndex :: dictionnary

text \<open>
  An addition between two columns of the store, the target column named first. The
  operation runs on the two stored columns and both are written back, the target last: when
  target and source are the same column, \<^verbatim>\<open>*this\<close> and the argument are one object, the
  swaps change nothing and the object holds what the base class left in it.
\<close>

datatype 'v addition =
    Plus_eq nat nat
  | Multiply_and_add_target 'v nat nat
  | Multiply_and_add_source nat nat 'v

fun addition_columns :: "'v addition \<Rightarrow> nat set" where
  "addition_columns (Plus_eq t s) = {t, s}"
| "addition_columns (Multiply_and_add_target v t s) = {t, s}"
| "addition_columns (Multiply_and_add_source t s v) = {t, s}"

fun apply_addition ::
  "('c, 'v) base_column \<Rightarrow> 'c chain_store \<Rightarrow> 'v addition \<Rightarrow> cpp_error + 'c chain_store" where
  "apply_addition ops st a =
     (let (t, s, f) = (case a of
            Plus_eq t s \<Rightarrow> (t, s, \<lambda>d. chain_plus_eq ops d)
          | Multiply_and_add_target v t s \<Rightarrow> (t, s, \<lambda>d. chain_multiply_and_add_target ops d v)
          | Multiply_and_add_source t s v \<Rightarrow>
              (t, s, \<lambda>d this col. chain_multiply_and_add_source ops d this col v))
      in case (chains st t, chains st s) of
           (Some this, Some col) \<Rightarrow>
             (case f (pivotToColumnIndex st) this col of
                Inl e \<Rightarrow> Inl e
              | Inr (d, this', col') \<Rightarrow>
                  Inr (st\<lparr>chains := (chains st)(s \<mapsto> col', t \<mapsto> this'), pivotToColumnIndex := d\<rparr>))
         | _ \<Rightarrow> Inl Out_of_range)"

fun apply_additions ::
  "('c, 'v) base_column \<Rightarrow> 'c chain_store \<Rightarrow> 'v addition list \<Rightarrow> cpp_error + 'c chain_store" where
  "apply_additions ops st [] = Inr st"
| "apply_additions ops st (a # as) =
     (case apply_addition ops st a of Inl e \<Rightarrow> Inl e | Inr st' \<Rightarrow> apply_additions ops st' as)"

text \<open>
  The invariants of the store. The dictionary is consistent when it sends the pivot of every
  live column to the index of that column; pivots are unique when no two live columns report
  the same pivot.
\<close>

definition dictionary_consistent :: "'c chain_store \<Rightarrow> bool" where
  "dictionary_consistent st \<longleftrightarrow>
     (\<forall>i c. chains st i = Some c \<longrightarrow> pivotToColumnIndex st (pivot c) = Some i)"

definition unique_pivots :: "'c chain_store \<Rightarrow> bool" where
  "unique_pivots st \<longleftrightarrow>
     (\<forall>i j ci cj. chains st i = Some ci \<and> chains st j = Some cj \<and> i \<noteq> j
         \<longrightarrow> chain_get_pivot ci \<noteq> chain_get_pivot cj)"

text \<open>
  For the examples, the Z2 vector column in the role of the base class: over Z2 a
  multiplication by \<open>v\<close> keeps or clears the multiplied column.
\<close>

definition z2_base :: "(z2_column, 32 word) base_column" where
  "z2_base =
     \<lparr>base_plus_eq = (\<lambda>t s. z2_add t (column s)),
      base_multiply_and_add_target = (\<lambda>v t s. z2_add (z2_mult t v) (column s)),
      base_multiply_and_add_source = (\<lambda>t s v. z2_add t (column (z2_mult s v))),
      base_is_non_zero = (\<lambda>c p. is_non_zero c (word_of_int p))\<rparr>"

section \<open>The boundary matrix\<close>

text \<open>
  \<^verbatim>\<open>Boundary_matrix\<close> is a template: its options are compile-time constants and four of
  its base classes are not part of the files at hand. The options are the booleans of the
  record below. Of the absent classes, the members that the matrix calls are functions of
  the same record, each acting on the state of its class: \<open>'d\<close> is the state of
  \<^verbatim>\<open>Matrix_dimension_option\<close>, \<open>'p\<close> of \<^verbatim>\<open>Base_pairing_option\<close> and \<open>'r\<close> the row
  container of \<^verbatim>\<open>Matrix_row_access_option\<close>; \<^verbatim>\<open>insert_cell\<close> and \<^verbatim>\<open>unlink\<close> are the
  members of \<^verbatim>\<open>Row_access_option\<close> that a column calls with one of its cells, given here
  by the row and the column of the cell.
\<close>

record ('d, 'p, 'r, 'w) matrix_options =
  has_map_column_container :: bool
  has_row_access :: bool
  has_removable_rows :: bool
  activeSwapOption :: bool
  activeDimOption :: bool
  activePairingOption :: bool
  update_up :: "int \<Rightarrow> 'd \<Rightarrow> 'd"
  update_down :: "int \<Rightarrow> 'd \<Rightarrow> 'd"
  pairing_remove_last :: "index \<Rightarrow> 'p \<Rightarrow> 'p"
  rows_size :: "'r \<Rightarrow> nat"
  rows_resize :: "nat \<Rightarrow> 'r \<Rightarrow> 'r"
  ra_erase_row :: "index \<Rightarrow> 'r \<Rightarrow> 'r"
  ra_get_row :: "index \<Rightarrow> 'r \<Rightarrow> 'w"
  ra_insert_cell :: "index \<Rightarrow> index \<Rightarrow> 'r \<Rightarrow> 'r"
  ra_unlink :: "index \<Rightarrow> index \<Rightarrow> 'r \<Rightarrow> 'r"

text \<open>
  What a call can end with instead of a result: the \<^verbatim>\<open>std::out_of_range\<close> of a
  container's \<^verbatim>\<open>at\<close>, a failed \<^verbatim>\<open>assert\<close>, or undefined behaviour (a
  \<^verbatim>\<open>std::vector\<close> read out of range, an end iterator dereferenced).
\<close>

datatype matrix_error = At_out_of_range | Assertion_failed | Undefined_behaviour

text \<open>
  The containers of the matrix are \<^verbatim>\<open>std::vector\<close>s or, with the option
  \<^verbatim>\<open>has_map_column_container\<close>, \<^verbatim>\<open>std::unordered_map\<close>s with indices as keys; a map is
  the list of its entries, each key once.
\<close>

datatype 'a container = Vector "'a list" | Unordered_map "(index \<times> 'a) list"

definition lookup :: "'a container \<Rightarrow> index \<Rightarrow> 'a option" where
  "lookup c i =
     (case c of
        Vector xs \<Rightarrow> (if unat i < length xs then Some (xs ! unat i) else None)
      | Unordered_map kvs \<Rightarrow> map_of kvs i)"

text \<open>\<^verbatim>\<open>size()\<close>.\<close>

definition container_size :: "'a container \<Rightarrow> nat" where
  "container_size c = (case c of Vector xs \<Rightarrow> length xs | Unordered_map kvs \<Rightarrow> length kvs)"

text \<open>\<^verbatim>\<open>at(i)\<close>, of both kinds of container, throws when there is no element.\<close>

definition at :: "'a container \<Rightarrow> index \<Rightarrow> matrix_error + 'a" where
  "at c i = (case lookup c i of None \<Rightarrow> Inl At_out_of_range | Some v \<Rightarrow> Inr v)"

text \<open>
  \<^verbatim>\<open>operator[]\<close> of a vector, and \<^verbatim>\<open>find(i)->second\<close> of a map: undefined when
  there is no element.
\<close>

definition subscript :: "'a container \<Rightarrow> index \<Rightarrow> matrix_error + 'a" where
  "subscript c i = (case lookup c i of None \<Rightarrow> Inl Undefined_behaviour | Some v \<Rightarrow> Inr v)"

text \<open>\<^verbatim>\<open>emplace\<close> and \<^verbatim>\<open>try_emplace\<close> of a map: nothing changes when the key is there.\<close>

definition emplace :: "'a container \<Rightarrow> index \<Rightarrow> 'a \<Rightarrow> 'a container" where
  "emplace c k v =
     (case c of
        Unordered_map kvs \<Rightarrow> (if map_of kvs k = None then Unordered_map (kvs @ [(k, v)]) else c)
      | Vector xs \<Rightarrow> c)"

text \<open>\<^verbatim>\<open>erase\<close> of a map.\<close>

definition erase :: "'a container \<Rightarrow> index \<Rightarrow> 'a container" where
  "erase c k =
     (case c of
        Unordered_map kvs \<Rightarrow> Unordered_map (filter (\<lambda>kv. fst kv \<noteq> k) kvs)
      | Vector xs \<Rightarrow> c)"

text \<open>\<^verbatim>\<open>push_back\<close>, \<^verbatim>\<open>emplace_back\<close> and \<^verbatim>\<open>pop_back\<close> of a vector.\<close>

definition push_back :: "'a container \<Rightarrow> 'a \<Rightarrow> 'a container" where
  "push_back c v = (case c of Vector xs \<Rightarrow> Vector (xs @ [v]) | Unordered_map kvs \<Rightarrow> c)"

definition pop_back :: "'a container \<Rightarrow> 'a container" where
  "pop_back c = (case c of Vector xs \<Rightarrow> Vector (butlast xs) | Unordered_map kvs \<Rightarrow> c)"

text \<open>An assignment to an element that is there.\<close>

definition assign :: "'a container \<Rightarrow> index \<Rightarrow> 'a \<Rightarrow> 'a container" where
  "assign c i v =
     (case c of
        Vector xs \<Rightarrow> Vector (xs[unat i := v])
      | Unordered_map kvs \<Rightarrow> Unordered_map (map (\<lambda>kv. if fst kv = i then (i, v) else kv) kvs))"

text \<open>The members of the matrix and of its base classes.\<close>

record ('d, 'p, 'r) boundary_matrix =
  dim_opt :: 'd
  rowSwapped :: bool
  indexToRow :: "index container"
  rowToIndex :: "index container"
  pair_opt :: 'p
  rows :: 'r
  matrix :: "z2_column container"
  nextInsertIndex :: index

text \<open>
  The columns of the matrix are Z2 columns. With the row access option a column mirrors its
  cells into the row container: the constructor
  \<^verbatim>\<open>Z2_vector_column(columnIndex, nonZeroRowIndices, dimension, rowContainer)\<close> inserts
  every new cell, the destructor and \<^verbatim>\<open>clear()\<close> unlink every cell.
\<close>

definition construct_column ::
  "('d, 'p, 'r, 'w) matrix_options \<Rightarrow> index \<Rightarrow> index list \<Rightarrow> int \<Rightarrow> 'r \<Rightarrow> z2_column \<times> 'r" where
  "construct_column opts columnIndex nonZeroRowIndices dimension r =
     (\<lparr>dim = dimension, column = nonZeroRowIndices\<rparr>,
      if has_row_access opts
      then fold (\<lambda>rowIndex. ra_insert_cell opts rowIndex columnIndex) nonZeroRowIndices r
      else r)"

definition destroy_column ::
  "('d, 'p, 'r, 'w) matrix_options \<Rightarrow> index \<Rightarrow> z2_column \<Rightarrow> 'r \<Rightarrow> 'r" where
  "destroy_column opts columnIndex c r =
     (if has_row_access opts
      then fold (\<lambda>rowIndex. ra_unlink opts rowIndex columnIndex) (column c) r
      else r)"

text \<open>
  \<^verbatim>\<open>Z2_vector_column::reorder(valueMap)\<close>: every cell takes the row index that the map
  gives for its own, is unlinked and, once all are unlinked, inserted in its new row; then
  the cells are sorted. The map is the function that \<^verbatim>\<open>valueMap[...]\<close> computes.
\<close>

definition reorder ::
  "('d, 'p, 'r, 'w) matrix_options \<Rightarrow> (index \<Rightarrow> index) \<Rightarrow> index \<Rightarrow> z2_column \<Rightarrow> 'r
   \<Rightarrow> z2_column \<times> 'r" where
  "reorder opts valueMap columnIndex c r =
     (let newRows = map valueMap (column c);
          r1 = (if has_row_access opts
                then fold (\<lambda>rowIndex. ra_unlink opts rowIndex columnIndex) newRows r else r);
          r2 = (if has_row_access opts
                then fold (\<lambda>rowIndex. ra_insert_cell opts rowIndex columnIndex) newRows r1 else r1)
      in (c\<lparr>column := sort newRows\<rparr>, r2))"

text \<open>
  The entries of a container with their indices, and a container of the same kind with new
  elements under the same indices.
\<close>

definition entries :: "'a container \<Rightarrow> (index \<times> 'a) list" where
  "entries c =
     (case c of
        Vector xs \<Rightarrow> zip (map word_of_nat [0..<length xs]) xs
      | Unordered_map kvs \<Rightarrow> kvs)"

definition with_entries :: "'a container \<Rightarrow> (index \<times> 'a) list \<Rightarrow> 'a container" where
  "with_entries c kvs =
     (case c of Vector xs \<Rightarrow> Vector (map snd kvs) | Unordered_map old \<Rightarrow> Unordered_map kvs)"


text \<open>
  Modelled from the spec: \<^verbatim>\<open>_orderRows()\<close>, the transition back to the canonical state
  (section 4.6): every column is reordered through \<^verbatim>\<open>rowToIndex_\<close>, so that every cell
  carries its row index, both dictionaries become the identity and the flag is cleared. A
  row that the dictionary does not know keeps its index.
\<close>

definition value_map :: "index container \<Rightarrow> index \<Rightarrow> index" where
  "value_map d r = (case lookup d r of None \<Rightarrow> r | Some i \<Rightarrow> i)"

fun reorder_all ::
  "('d, 'p, 'r, 'w) matrix_options \<Rightarrow> (index \<Rightarrow> index) \<Rightarrow> (index \<times> z2_column) list \<Rightarrow> 'r
   \<Rightarrow> (index \<times> z2_column) list \<times> 'r" where
  "reorder_all opts valueMap [] r = ([], r)"
| "reorder_all opts valueMap ((k, c) # kcs) r =
     (let (c', r1) = reorder opts valueMap k c r;
          (rest, r2) = reorder_all opts valueMap kcs r1
      in ((k, c') # rest, r2))"

definition identity_map :: "index container \<Rightarrow> index container" where
  "identity_map d = with_entries d (map (\<lambda>kv. (fst kv, fst kv)) (entries d))"

definition orderRows ::
  "('d, 'p, 'r, 'w) matrix_options \<Rightarrow> ('d, 'p, 'r) boundary_matrix \<Rightarrow> ('d, 'p, 'r) boundary_matrix" where
  "orderRows opts m =
     (let (cols, r) = reorder_all opts (value_map (rowToIndex m)) (entries (matrix m)) (rows m)
      in m\<lparr>matrix := with_entries (matrix m) cols, rows := r,
            indexToRow := identity_map (indexToRow m),
            rowToIndex := identity_map (rowToIndex m),
            rowSwapped := False\<rparr>)"

text \<open>\<^verbatim>\<open>if (swap_opt::rowSwapped_) swap_opt::_orderRows();\<close> under \<^verbatim>\<open>activeSwapOption\<close>.\<close>

definition order_rows_if_swapped ::
  "('d, 'p, 'r, 'w) matrix_options \<Rightarrow> ('d, 'p, 'r) boundary_matrix \<Rightarrow> ('d, 'p, 'r) boundary_matrix" where
  "order_rows_if_swapped opts m =
     (if activeSwapOption opts \<and> rowSwapped m then orderRows opts m else m)"

text \<open>
  The loop of \<^verbatim>\<open>insert_boundary\<close> that extends the two dictionaries, when they are
  vectors, up to \<^verbatim>\<open>faceIndex\<close>. Its counter is an \<^verbatim>\<open>index\<close>: with
  \<^verbatim>\<open>faceIndex == UINT_MAX\<close> the condition never fails, and \<open>None\<close> stands for a run that
  does not return.
\<close>

partial_function (option) push_identity ::
  "index \<Rightarrow> index \<Rightarrow> index container \<Rightarrow> index container
   \<Rightarrow> (index container \<times> index container) option" where
  "push_identity i faceIndex i2r r2i =
     (if i \<le> faceIndex
      then push_identity (i + 1) faceIndex (push_back i2r i) (push_back r2i i)
      else Some (i2r, r2i))"

declare push_identity.simps [code]

text \<open>
  \<^verbatim>\<open>insert_boundary(faceIndex, boundary, dim)\<close>: the new state of the matrix with the
  index returned. The boundary is a Z2 boundary, the list of its row indices.
\<close>

definition insert_boundary_id ::
  "('d, 'p, 'r, 'w) matrix_options \<Rightarrow> index \<Rightarrow> index list \<Rightarrow> int \<Rightarrow> ('d, 'p, 'r) boundary_matrix
   \<Rightarrow> (matrix_error + ('d, 'p, 'r) boundary_matrix \<times> index) option" where
  "insert_boundary_id opts faceIndex boundary dim0 m0 =
     (let dim1 = (if dim0 = - 1 then (if length boundary = 0 then 0 else int (length boundary) - 1)
                  else dim0);
          m1 = order_rows_if_swapped opts m0
      in if has_row_access opts \<and> \<not> has_removable_rows opts \<and> boundary = []
         then Some (Inl Undefined_behaviour)
         else
           let m2 = (if has_row_access opts \<and> \<not> has_removable_rows opts
                        \<and> rows_size opts (rows m1) \<le> unat (last boundary)
                     then m1\<lparr>rows := rows_resize opts (unat (last boundary + 1)) (rows m1)\<rparr>
                     else m1);
               next = nextInsertIndex m2
           in case (if has_map_column_container opts
                    then
                      let m3 = (if activeSwapOption opts
                                then m2\<lparr>indexToRow := emplace (indexToRow m2) faceIndex faceIndex,
                                        rowToIndex := emplace (rowToIndex m2) faceIndex faceIndex\<rparr>
                                else m2)
                      in if has_row_access opts
                         then (let (col, r) = construct_column opts next boundary dim1 (rows m3)
                               in if lookup (matrix m3) next = None
                                  then Some (m3\<lparr>matrix := emplace (matrix m3) next col, rows := r\<rparr>)
                                  else Some (m3\<lparr>rows := destroy_column opts next col r\<rparr>))
                         else Some (m3\<lparr>matrix := emplace (matrix m3) next
                                                    (fst (construct_column opts next boundary dim1 (rows m3)))\<rparr>)
                    else
                      case (if activeSwapOption opts
                            then map_option (\<lambda>(i2r, r2i). m2\<lparr>indexToRow := i2r, rowToIndex := r2i\<rparr>)
                                   (push_identity (word_of_nat (container_size (indexToRow m2)))
                                      faceIndex (indexToRow m2) (rowToIndex m2))
                            else Some m2) of
                        None \<Rightarrow> None
                      | Some m3 \<Rightarrow>
                          let (col, r) = construct_column opts next boundary dim1 (rows m3)
                          in if has_row_access opts
                             then Some (m3\<lparr>matrix := push_back (matrix m3) col, rows := r\<rparr>)
                             else if container_size (matrix m3) \<le> unat next
                               then Some (m3\<lparr>matrix := push_back (matrix m3) col\<rparr>)
                               else Some (m3\<lparr>matrix := assign (matrix m3) next col\<rparr>)) of
                None \<Rightarrow> None
              | Some m4 \<Rightarrow>
                  let m5 = (if activeDimOption opts
                            then m4\<lparr>dim_opt := update_up opts
                                       (if length boundary = 0 then 0 else int (length boundary) - 1)
                                       (dim_opt m4)\<rparr>
                            else m4)
                  in Some (Inr (m5\<lparr>nextInsertIndex := nextInsertIndex m5 + 1\<rparr>, nextInsertIndex m5)))"

text \<open>\<^verbatim>\<open>insert_boundary(boundary, dim)\<close> with the default \<^verbatim>\<open>dim = -1\<close>.\<close>

definition insert_boundary ::
  "('d, 'p, 'r, 'w) matrix_options \<Rightarrow> index list \<Rightarrow> ('d, 'p, 'r) boundary_matrix
   \<Rightarrow> (matrix_error + ('d, 'p, 'r) boundary_matrix \<times> index) option" where
  "insert_boundary opts boundary m = insert_boundary_id opts (nextInsertIndex m) boundary (- 1) m"

text \<open>\<^verbatim>\<open>erase_row(rowIndex)\<close>.\<close>

definition erase_row ::
  "('d, 'p, 'r, 'w) matrix_options \<Rightarrow> index \<Rightarrow> ('d, 'p, 'r) boundary_matrix
   \<Rightarrow> matrix_error + ('d, 'p, 'r) boundary_matrix" where
  "erase_row opts rowIndex m =
     (case (if activeSwapOption opts
            then (case subscript (indexToRow m) rowIndex of
                    Inl e \<Rightarrow> Inl e
                  | Inr rowID \<Rightarrow>
                      if has_map_column_container opts
                      then Inr (m\<lparr>rowToIndex := erase (rowToIndex m) rowID,
                                  indexToRow := erase (indexToRow m) rowIndex\<rparr>, rowID)
                      else Inr (m, rowID))
            else Inr (m, rowIndex)) of
        Inl e \<Rightarrow> Inl e
      | Inr (m1, rowID) \<Rightarrow>
          if has_row_access opts \<and> has_removable_rows opts
          then Inr (m1\<lparr>rows := ra_erase_row opts rowID (rows m1)\<rparr>)
          else Inr m1)"

text \<open>
  The pivot of a column as \<^verbatim>\<open>remove_last\<close> and \<^verbatim>\<open>get_pivot\<close> of the matrix hold it:
  the \<^verbatim>\<open>int\<close> of the column converted to an \<^verbatim>\<open>index\<close>.
\<close>

definition pivot_of :: "z2_column \<Rightarrow> index" where
  "pivot_of c = word_of_int (get_pivot c)"

text \<open>\<^verbatim>\<open>remove_last()\<close>: the new state of the matrix with the pivot returned.\<close>

definition remove_last ::
  "('d, 'p, 'r, 'w) matrix_options \<Rightarrow> ('d, 'p, 'r) boundary_matrix
   \<Rightarrow> matrix_error + ('d, 'p, 'r) boundary_matrix \<times> index" where
  "remove_last opts m0 =
     (if nextInsertIndex m0 = 0 then Inr (m0, - 1)
      else
        let m1 = m0\<lparr>nextInsertIndex := nextInsertIndex m0 - 1\<rparr>;
            next = nextInsertIndex m1
        in case (if activeDimOption opts
                 then (case at (matrix m1) next of
                         Inl e \<Rightarrow> Inl e
                       | Inr c \<Rightarrow> Inr (m1\<lparr>dim_opt := update_down opts (get_dimension c) (dim_opt m1)\<rparr>))
                 else Inr m1) of
             Inl e \<Rightarrow> Inl e
           | Inr m2 \<Rightarrow>
              (case subscript (matrix m2) next of
                 Inl e \<Rightarrow> Inl e
               | Inr c \<Rightarrow>
                  let m3 = (if activeSwapOption opts \<and> rowSwapped m2 \<and> pivot_of c \<noteq> - 1
                            then orderRows opts m2 else m2)
                  in case subscript (matrix m3) next of
                       Inl e \<Rightarrow> Inl e
                     | Inr c3 \<Rightarrow>
                        let pivot = pivot_of c3 in
                        case (if has_map_column_container opts
                              then Inr (m3\<lparr>matrix := erase (matrix m3) next,
                                          rows := destroy_column opts next c3 (rows m3)\<rparr>)
                              else if has_row_access opts
                              then (if unat next = container_size (matrix m3) - 1
                                    then Inr (m3\<lparr>matrix := pop_back (matrix m3),
                                                rows := destroy_column opts next c3 (rows m3)\<rparr>)
                                    else Inl Assertion_failed)
                              else Inr (m3\<lparr>matrix := assign (matrix m3) next (clear c3)\<rparr>)) of
                          Inl e \<Rightarrow> Inl e
                        | Inr m4 \<Rightarrow>
                           (case erase_row opts next m4 of
                              Inl e \<Rightarrow> Inl e
                            | Inr m5 \<Rightarrow>
                                Inr (if activePairingOption opts
                                     then m5\<lparr>pair_opt := pairing_remove_last opts next (pair_opt m5)\<rparr>
                                     else m5, pivot))))"

text \<open>\<^verbatim>\<open>get_number_of_columns()\<close>, as a natural number.\<close>

definition get_number_of_columns ::
  "('d, 'p, 'r, 'w) matrix_options \<Rightarrow> ('d, 'p, 'r) boundary_matrix \<Rightarrow> nat" where
  "get_number_of_columns opts m =
     (if has_map_column_container opts then container_size (matrix m)
      else unat (nextInsertIndex m))"

text \<open>
  \<^verbatim>\<open>get_column(columnIndex)\<close>, \<^verbatim>\<open>get_row(rowIndex)\<close> and \<^verbatim>\<open>get_pivot(columnIndex)\<close>:
  the state that the call leaves with what it returns. The column container is read with
  \<^verbatim>\<open>at\<close> when it is a map and with \<^verbatim>\<open>operator[]\<close> when it is a vector.
\<close>

definition column_at ::
  "('d, 'p, 'r, 'w) matrix_options \<Rightarrow> ('d, 'p, 'r) boundary_matrix \<Rightarrow> index
   \<Rightarrow> matrix_error + z2_column" where
  "column_at opts m columnIndex =
     (if has_map_column_container opts then at (matrix m) columnIndex
      else subscript (matrix m) columnIndex)"





definition is_zero_column ::
  "('d, 'p, 'r, 'w) matrix_options \<Rightarrow> index \<Rightarrow> ('d, 'p, 'r) boundary_matrix
   \<Rightarrow> matrix_error + bool" where
  "is_zero_column opts columnIndex m =
     (case column_at opts m columnIndex of Inl e \<Rightarrow> Inl e | Inr c \<Rightarrow> Inr (is_empty c))"

text \<open>
  For the examples: a matrix with the swap and the dimension options, its columns in a map
  and no row access. The dimension option keeps the dimensions of the columns it was told
  of, the pairing option and the row container keep nothing.
\<close>

definition example_options :: "(int list, unit, unit, unit) matrix_options" where
  "example_options =
     \<lparr>has_map_column_container = True, has_row_access = False, has_removable_rows = False,
      activeSwapOption = True, activeDimOption = True, activePairingOption = False,
      update_up = (\<lambda>d ds. d # ds), update_down = (\<lambda>d ds. remove1 d ds),
      pairing_remove_last = (\<lambda>i p. p), rows_size = (\<lambda>r. 0), rows_resize = (\<lambda>n r. r),
      ra_erase_row = (\<lambda>i r. r), ra_get_row = (\<lambda>i r. ()),
      ra_insert_cell = (\<lambda>i c r. r), ra_unlink = (\<lambda>i c r. r)\<rparr>"

definition empty_matrix :: "(int list, unit, unit) boundary_matrix" where
  "empty_matrix =
     \<lparr>dim_opt = [], rowSwapped = False, indexToRow = Unordered_map [],
      rowToIndex = Unordered_map [], pair_opt = (), rows = (),
      matrix = Unordered_map [], nextInsertIndex = 0\<rparr>"

section \<open>Row swaps: the lazy matrix and its reference\<close>














section \<open>Columns with field values\<close>





section \<open>Specification functions\<close>

text \<open>
  The symmetric difference of two sorted sequences, written without \<^verbatim>\<open>newColumn\<close>: what
  the additions of Z2 columns are compared with.
\<close>

fun sym_merge :: "index list \<Rightarrow> index list \<Rightarrow> index list" where
  "sym_merge (a # as) (t # ts) =
     (if a = t then sym_merge as ts
      else if a < t then a # sym_merge as (t # ts)
      else t # sym_merge (a # as) ts)"
| "sym_merge (a # as) [] = a # as"
| "sym_merge [] ts = ts"

text \<open>
  Prime numbers as the specification means them, and the primes of an interval
  \<open>[lo, hi]\<close> in increasing order.
\<close>

definition prime_nat :: "nat \<Rightarrow> bool" where
  "prime_nat n \<longleftrightarrow> 1 < n \<and> (\<forall>d\<in>{2..<n}. \<not> d dvd n)"

definition primes_in :: "nat \<Rightarrow> nat \<Rightarrow> nat list" where
  "primes_in lo hi = filter prime_nat [lo..<Suc hi]"

section \<open>Properties of the Z2 columns\<close>

lemma add_loop_left_nil: "add_loop [] ts acc = acc @ ts"
  by (induction ts arbitrary: acc) simp_all

lemma add_loop_right_nil: "add_loop as [] acc = acc @ as"
  by (induction as arbitrary: acc) (simp_all add: insert_cell_def add_loop_left_nil)

lemma add_loop_sym_merge: "add_loop as ts acc = acc @ sym_merge as ts"
  by (induction as ts acc rule: add_loop.induct)
     (simp_all add: insert_cell_def add_loop_left_nil add_loop_right_nil)

lemma foldl_insert_cell: "foldl (\<lambda>c r. insert_cell r c) acc rs = acc @ rs"
  by (induction rs arbitrary: acc) (simp_all add: insert_cell_def)

lemma z2_add_sym_merge: "column (z2_add target source) = sym_merge source (column target)"
  by (cases source; cases "column target")
     (simp_all add: z2_add_def add_loop_sym_merge foldl_insert_cell)

lemma sym_merge_set:
  "sorted_wrt (<) as \<Longrightarrow> sorted_wrt (<) ts \<Longrightarrow>
   set (sym_merge as ts) = (set as - set ts) \<union> (set ts - set as)"
  by (induction as ts rule: sym_merge.induct) (auto)

lemma sym_merge_sorted:
  "sorted_wrt (<) as \<Longrightarrow> sorted_wrt (<) ts \<Longrightarrow> sorted_wrt (<) (sym_merge as ts)"
  by (induction as ts rule: sym_merge.induct) (auto simp: sym_merge_set)





text \<open>
  Claim C2. For a target column and an added column whose cells are both sorted by strictly
  increasing row index, after \<^verbatim>\<open>target += source\<close> the rows of the target are the
  symmetric difference of the rows of the two columns, and the cells of the target are
  still sorted by strictly increasing row index, without a duplicate.
\<close>

theorem z2_add_symmetric_difference:
  assumes "sorted_wrt (<) (column target)" and "sorted_wrt (<) source"
  shows "set (column (z2_add target source))
           = (set (column target) - set source) \<union> (set source - set (column target))
         \<and> sorted_wrt (<) (column (z2_add target source))
         \<and> distinct (column (z2_add target source))"
proof -
  have s: "sorted_wrt (<) (column (z2_add target source))"
    using assms by (simp add: z2_add_sym_merge sym_merge_sorted)
  then have "distinct (column (z2_add target source))"
    by (simp add: strict_sorted_iff)
  with s show ?thesis
    using assms by (auto simp: z2_add_sym_merge sym_merge_set)
qed

theorem z2_add_symmetric_difference_witness:
  "sorted_wrt (<) (column \<lparr>dim = 1, column = [1, 3, 5]\<rparr>) \<and> sorted_wrt (<) [3, 4 :: index]
   \<and> column (z2_add \<lparr>dim = 1, column = [1, 3, 5]\<rparr> [3, 4]) = [1, 4, 5]
   \<and> set (column (z2_add \<lparr>dim = 1, column = [1, 3, 5]\<rparr> [3, 4]))
        = (set [1, 3, 5] - set [3, 4]) \<union> (set [3, 4] - set [1, 3, 5])"
  using z2_add_symmetric_difference [of "\<lparr>dim = 1, column = [1, 3, 5]\<rparr>" "[3, 4]"]
  by (simp add: z2_add_def insert_cell_def)



lemma word_mod2_even: "(v :: 32 word) mod 2 = 0 \<longleftrightarrow> even (unat v)"
  by (simp add: word_eq_iff_unsigned [where ?'a = nat] unat_mod_distrib even_iff_mod_2_eq_zero)

text \<open>
  Claim C10. \<^verbatim>\<open>c *= v\<close> leaves the Z2 vector column \<open>c\<close> as it is when \<open>v\<close> is odd
  and removes every cell when \<open>v\<close> is even: it multiplies by \<open>v mod 2\<close>.
\<close>

theorem z2_mult_parity:
  "(odd (unat v) \<longrightarrow> z2_mult c v = c)
   \<and> (even (unat v) \<longrightarrow> z2_mult c v = c\<lparr>column := []\<rparr>)"
  by (simp add: z2_mult_def clear_def word_mod2_even)

theorem z2_mult_parity_witness:
  "odd (unat (3 :: 32 word)) \<and> z2_mult \<lparr>dim = 1, column = [0, 2]\<rparr> 3 = \<lparr>dim = 1, column = [0, 2]\<rparr>
   \<and> even (unat (4 :: 32 word)) \<and> z2_mult \<lparr>dim = 1, column = [0, 2]\<rparr> 4 = \<lparr>dim = 1, column = []\<rparr>"
  using z2_mult_parity [of 3 "\<lparr>dim = 1, column = [0, 2]\<rparr>"]
        z2_mult_parity [of 4 "\<lparr>dim = 1, column = [0, 2]\<rparr>"]
  by simp

lemma sorted_last_Max:
  "sorted_wrt (<) (xs :: index list) \<Longrightarrow> xs \<noteq> [] \<Longrightarrow> last xs = Max (set xs)"
proof (induction xs)
  case Nil
  then show ?case by simp
next
  case (Cons x xs)
  show ?case
  proof (cases "xs = []")
    case True
    then show ?thesis by simp
  next
    case False
    with Cons have l: "last xs = Max (set xs)" by simp
    have "last xs \<in> set xs" using False by simp
    with Cons.prems have "x < last xs" by auto
    with l have "max x (Max (set xs)) = Max (set xs)" by (simp add: max_absorb2 less_imp_le)
    with l False show ?thesis by simp
  qed
qed

lemma sint_small: "(w :: 32 word) < 2 ^ 31 \<Longrightarrow> sint w = uint w"
proof -
  assume "w < 2 ^ 31"
  then have "uint w < 2 ^ 31" by (simp add: word_less_def)
  moreover have "- (2 ^ 31) \<le> uint w"
  proof -
    have "- (2 ^ 31) \<le> (0::int)" by simp
    also have "0 \<le> uint w" by simp
    finally show ?thesis .
  qed
  ultimately have "signed_take_bit 31 (uint w) = uint w"
    by (rule signed_take_bit_int_eq_self [rotated])
  then show ?thesis by (simp add: sint_uint)
qed

text \<open>
  Claim C7, as stated, fails: \<^verbatim>\<open>get_pivot\<close> returns the row index of the last cell as
  an \<^verbatim>\<open>int\<close>, and the sorted column with the single row \<open>4294967295\<close> is not empty
  but reports \<open>-1\<close>.
\<close>

theorem get_pivot_counterexample:
  "sorted_wrt (<) (column \<lparr>dim = 0, column = [4294967295]\<rparr>)
   \<and> column \<lparr>dim = 0, column = [4294967295]\<rparr> \<noteq> []
   \<and> get_pivot \<lparr>dim = 0, column = [4294967295]\<rparr> = - 1"
  by (simp add: get_pivot_def)

text \<open>
  Claim C7, amended. For a column whose cells are sorted by strictly increasing row index
  and whose row indices are below \<open>2^31\<close>, \<^verbatim>\<open>get_pivot()\<close> returns the maximal row index
  of the column when there is one, and returns \<open>-1\<close> exactly when the column is empty.
\<close>

theorem get_pivot_max_row:
  assumes "sorted_wrt (<) (column c)" and "\<forall>r\<in>set (column c). r < 2 ^ 31"
  shows "(column c \<noteq> [] \<longrightarrow> get_pivot c = uint (Max (set (column c))))
         \<and> (get_pivot c = - 1 \<longleftrightarrow> column c = [])"
proof (cases "column c = []")
  case True
  then show ?thesis by (simp add: get_pivot_def)
next
  case False
  then have "last (column c) \<in> set (column c)" by simp
  with assms(2) have "sint (last (column c)) = uint (last (column c))"
    by (simp add: sint_small)
  moreover have "last (column c) = Max (set (column c))"
    using assms(1) False by (rule sorted_last_Max)
  moreover have "uint (Max (set (column c))) \<noteq> - 1"
    using uint_ge_0 [of "Max (set (column c))"] by linarith
  ultimately show ?thesis using False by (simp add: get_pivot_def)
qed

theorem get_pivot_max_row_witness:
  "sorted_wrt (<) (column \<lparr>dim = 1, column = [2, 7]\<rparr>)
   \<and> (2 :: index) < 2 ^ 31 \<and> (7 :: index) < 2 ^ 31
   \<and> get_pivot \<lparr>dim = 1, column = [2, 7]\<rparr> = 7
   \<and> get_pivot \<lparr>dim = 0, column = []\<rparr> = - 1"
  using get_pivot_max_row [of "\<lparr>dim = 1, column = [2, 7]\<rparr>"]
        get_pivot_max_row [of "\<lparr>dim = 0, column = []\<rparr>"]
  by simp

section \<open>Arithmetic of the multi-field elements\<close>

lemma unat_lt32: "unat (w :: 32 word) < 4294967296"
  using unsigned_less [of w, where ?'a = nat] by simp

lemma unat_UINT_MAX_minus: "unat (UINT_MAX - w) = 4294967295 - unat w"
proof -
  have "w \<le> UINT_MAX" by (simp add: UINT_MAX_def)
  then have "unat (UINT_MAX - w) = unat UINT_MAX - unat w" by (rule unat_sub)
  then show ?thesis by (simp add: UINT_MAX_def unsigned_minus_1_eq_mask mask_eq_exp_minus_1)
qed

lemma word_odd_iff: "(a :: 32 word) AND 1 \<noteq> 0 \<longleftrightarrow> odd (unat a)"
  by (simp add: and_one_eq word_eq_iff_unsigned [where ?'a = nat] unat_mod_distrib even_iff_mod_2_eq_zero)

lemma unat_drop_bit1: "unat (drop_bit 1 (a :: 32 word)) = unat a div 2"
  by (simp add: drop_bit_eq_div unat_div_distrib)

text \<open>Adding two residues: the wrap-around of the machine word cancels.\<close>

lemma add_mod_step:
  fixes N x y :: "32 word"
  assumes "x < N" and "y < N"
  shows "unat ((if y \<ge> N - x then x - N else x) + y) = (unat x + unat y) mod unat N"
proof -
  let ?n = "unat N" and ?x = "unat x" and ?y = "unat y"
  have xn: "?x < ?n" and yn: "?y < ?n" using assms by (simp_all add: word_less_nat_alt)
  have n32: "?n < 4294967296" by (rule unat_lt32)
  have sub: "unat (N - x) = ?n - ?x"
    using assms(1) by (simp add: unat_sub word_le_nat_alt word_less_nat_alt)
  show ?thesis
  proof (cases "y \<ge> N - x")
    case True
    then have ge: "?n \<le> ?x + ?y" using sub xn by (simp add: word_le_nat_alt)
    have a: "unat (x - N) = ?x + 4294967296 - ?n"
      using xn by (simp add: unat_sub_if')
    have "unat (x - N + y) = (?x + 4294967296 - ?n + ?y) mod 4294967296"
      by (simp add: unat_word_ariths a)
    also have "?x + 4294967296 - ?n + ?y = (?x + ?y - ?n) + 4294967296"
      using ge n32 by simp
    also have "(?x + ?y - ?n + 4294967296) mod 4294967296 = ?x + ?y - ?n"
      using xn yn n32 by simp
    also have "?x + ?y - ?n = (?x + ?y) mod ?n"
      using ge xn yn by (simp add: mod_if)
    finally show ?thesis using True by simp
  next
    case False
    then have lt: "?x + ?y < ?n" using sub xn by (simp add: word_le_nat_alt)
    then have "unat (x + y) = ?x + ?y"
      using n32 by (simp add: unat_word_ariths)
    then show ?thesis using False lt by simp
  qed
qed

lemma field_add_correct:
  assumes "element < N" and "v < N"
  shows "unat (field_add N element v) = (unat element + unat v) mod unat N"
proof -
  let ?n = "unat N" and ?e = "unat element" and ?v = "unat v"
  have en: "?e < ?n" and vn: "?v < ?n" using assms by (simp_all add: word_less_nat_alt)
  have n32: "?n < 4294967296" by (rule unat_lt32)
  show ?thesis
  proof (cases "UINT_MAX - element < v")
    case True
    then have ov: "4294967296 \<le> ?e + ?v"
      by (simp add: word_less_nat_alt unat_UINT_MAX_minus)
    have s: "unat (element + v) = ?e + ?v - 4294967296"
      using ov by (simp add: unat_plus_if')
    have "?e + ?v - 4294967296 < ?n" using en vn n32 by simp
    then have "unat (element + v - N) = ?e + ?v - 4294967296 + 4294967296 - ?n"
      by (simp add: unat_sub_if' s)
    also have "\<dots> = ?e + ?v - ?n" using ov by simp
    also have "\<dots> = (?e + ?v) mod ?n"
      using ov en vn n32 by (simp add: mod_if)
    finally show ?thesis using True by (simp add: field_add_def)
  next
    case False
    then have nov: "?e + ?v < 4294967296"
      using unat_lt32 [of element] by (simp add: word_less_nat_alt unat_UINT_MAX_minus)
    then have s: "unat (element + v) = ?e + ?v" by (simp add: unat_plus_if')
    show ?thesis
    proof (cases "element + v \<ge> N")
      case True
      then have ge: "?n \<le> ?e + ?v" using s by (simp add: word_le_nat_alt)
      have "unat (element + v - N) = ?e + ?v - ?n"
        using True s by (simp add: unat_sub)
      also have "\<dots> = (?e + ?v) mod ?n" using ge en vn by (simp add: mod_if)
      finally show ?thesis using True \<open>\<not> UINT_MAX - element < v\<close>
        by (simp add: field_add_def)
    next
      case False
      then have "?e + ?v < ?n" using s by (simp add: word_le_nat_alt)
      then show ?thesis using False \<open>\<not> UINT_MAX - element < v\<close> s
        by (simp add: field_add_def)
    qed
  qed
qed

lemma uint_lt32: "uint (w :: 32 word) < 4294967296"
  using unsigned_less [of w, where ?'a = int] by simp

lemma field_substract_correct:
  assumes "element < N" and "v < N"
  shows "uint (field_substract N element v) = (uint element - uint v) mod uint N"
proof -
  let ?n = "uint N" and ?e = "uint element" and ?v = "uint v"
  have en: "?e < ?n" and vn: "?v < ?n" using assms by (simp_all add: word_less_def)
  have n32: "?n < 4294967296" by (rule uint_lt32)
  have e0: "0 \<le> ?e" and v0: "0 \<le> ?v" by simp_all
  show ?thesis
  proof (cases "element < v")
    case True
    then have lt: "?e < ?v" by (simp add: word_less_def)
    have "element + N - v = word_of_int (?e + ?n - ?v)" by simp
    then have "uint (element + N - v) = (?e + ?n - ?v) mod 4294967296"
      by (simp only: uint_word_of_int) simp
    also have "\<dots> = ?e + ?n - ?v"
      using lt en vn n32 e0 v0 by (intro mod_pos_pos_trivial) linarith+
    also have "\<dots> = (?e - ?v) mod ?n"
    proof -
      have "(?e - ?v) mod ?n = (?e - ?v + ?n) mod ?n" by simp
      also have "\<dots> = ?e - ?v + ?n"
        using lt vn en e0 v0 by (intro mod_pos_pos_trivial) linarith+
      finally show ?thesis by simp
    qed
    finally show ?thesis using True by (simp add: field_substract_def)
  next
    case False
    then have ge: "?v \<le> ?e" by (simp add: word_less_def)
    then have "uint (element - v) = ?e - ?v" by (simp add: uint_sub_if')
    also have "\<dots> = (?e - ?v) mod ?n"
      using ge en v0 by (intro mod_pos_pos_trivial [symmetric]) linarith+
    finally show ?thesis using False by (simp add: field_substract_def)
  qed
qed

lemma mod_acc: "(x mod n + y * (z mod n)) mod (n::nat) = (x + y * z) mod n"
proof -
  have "(x mod n + y * (z mod n)) mod n = (x mod n + (y * (z mod n)) mod n) mod n"
    by (simp only: mod_add_right_eq)
  also have "(y * (z mod n)) mod n = (y * z) mod n"
    by (simp only: mod_mult_right_eq)
  also have "(x mod n + (y * z) mod n) mod n = (x + y * z) mod n"
    by (simp only: mod_add_eq)
  finally show ?thesis .
qed

lemma half_split: "(x::nat) mod 2 * y + x div 2 * (2 * y) = x * y"
proof -
  have "x mod 2 * y + x div 2 * (2 * y) = (x mod 2 + x div 2 * 2) * y"
    by (simp only: distrib_right mult.assoc)
  also have "x mod 2 + x div 2 * 2 = x" by simp
  finally show ?thesis .
qed

lemma multiply_loop_correct:
  "res < N \<Longrightarrow> b < N \<Longrightarrow>
   unat (multiply_loop N a b res) = (unat res + unat a * unat b) mod unat N"
proof (induction N a b res rule: multiply_loop.induct)
  case (1 N a b res)
  let ?n = "unat N"
  show ?case
  proof (cases "a = 0")
    case True
    then have "multiply_loop N a b res = res" by (subst multiply_loop.simps) simp
    then show ?thesis using True 1(2) by (simp add: word_less_nat_alt)
  next
    case False
    define res' where "res' = (if a AND 1 \<noteq> 0
                    then (if b \<ge> N - res then res - N else res) + b
                    else res)"
    define a' where "a' = drop_bit 1 a"
    define temp_b where "temp_b = (if b \<ge> N - b then b - N else b)"
    define b' where "b' = b + temp_b"
    have npos: "0 < ?n" using 1(3) by (simp add: word_less_nat_alt)
    have r: "unat res' = (unat res + (unat a mod 2) * unat b) mod ?n"
    proof (cases "a AND 1 \<noteq> 0")
      case True
      then have "unat a mod 2 = 1" by (simp add: word_odd_iff odd_iff_mod_2_eq_one)
      then show ?thesis using True add_mod_step [OF 1(2) 1(3)] by (simp add: res'_def)
    next
      case False
      then have "unat a mod 2 = 0" by (simp add: word_odd_iff)
      then show ?thesis using False 1(2) by (simp add: res'_def word_less_nat_alt)
    qed
    have b: "unat b' = (2 * unat b) mod ?n"
      using add_mod_step [OF 1(3) 1(3)] by (simp add: b'_def temp_b_def add.commute mult_2)
    have ua: "unat a' = unat a div 2" unfolding a'_def by (rule unat_drop_bit1)
    have r_lt: "res' < N" using r npos by (simp add: word_less_nat_alt)
    have b_lt: "b' < N" using b npos by (simp add: word_less_nat_alt)
    have step: "multiply_loop N a b res = multiply_loop N a' b' res'"
      using False by (subst multiply_loop.simps) (simp add: Let_def res'_def a'_def temp_b_def b'_def)
    have "unat (multiply_loop N a' b' res') = (unat res' + unat a' * unat b') mod ?n"
      using "1.IH" [OF False res'_def a'_def temp_b_def b'_def r_lt b_lt] .
    also have "\<dots> = ((unat res + (unat a mod 2) * unat b) mod ?n
                       + (unat a div 2) * ((2 * unat b) mod ?n)) mod ?n"
      unfolding r b ua ..
    also have "\<dots> = ((unat res + (unat a mod 2) * unat b) + (unat a div 2) * (2 * unat b)) mod ?n"
      by (rule mod_acc)
    also have "(unat res + (unat a mod 2) * unat b) + (unat a div 2) * (2 * unat b)
                 = unat res + unat a * unat b"
      by (simp only: add.assoc half_split)
    finally show ?thesis using step by simp
  qed
qed

lemma field_multiply_correct:
  assumes "a < N" and "b < N"
  shows "unat (field_multiply N a b) = (unat a * unat b) mod unat N"
proof -
  have z: "(0 :: 32 word) < N" using assms(1) by (auto simp: word_less_nat_alt)
  show ?thesis
    using multiply_loop_correct [OF z assms(1), of b] multiply_loop_correct [OF z assms(2), of a]
    by (simp add: field_multiply_def mult.commute)
qed


text \<open>
  Claim C5. For two elements whose stored values lie in \<open>[0, N)\<close>, \<open>N\<close> being
  \<^verbatim>\<open>productOfAllCharacteristics_\<close>, the results of \<^verbatim>\<open>operator+=\<close>, \<^verbatim>\<open>operator-=\<close>
  and \<^verbatim>\<open>operator*=\<close> lie in \<open>[0, N)\<close> and are the sum, the difference and the product
  of the operands modulo \<open>N\<close>, whatever wraps around in the 32-bit words on the way.
\<close>

theorem multi_field_operators_mod:
  assumes "element < N" and "f < N"
  shows "operator_plus_eq N element f < N
         \<and> unat (operator_plus_eq N element f) = (unat element + unat f) mod unat N
         \<and> operator_minus_eq N element f < N
         \<and> uint (operator_minus_eq N element f) = (uint element - uint f) mod uint N
         \<and> operator_times_eq N element f < N
         \<and> unat (operator_times_eq N element f) = (unat element * unat f) mod unat N"
proof -
  have n: "0 < unat N" using assms(1) by (auto simp: word_less_nat_alt)
  have ni: "0 < uint N"
  proof -
    have "0 \<le> uint element" by simp
    also have "uint element < uint N" using assms(1) by (simp add: word_less_def)
    finally show ?thesis .
  qed
  have a: "unat (operator_plus_eq N element f) = (unat element + unat f) mod unat N"
    unfolding operator_plus_eq_def using assms by (rule field_add_correct)
  have s: "uint (operator_minus_eq N element f) = (uint element - uint f) mod uint N"
    unfolding operator_minus_eq_def using assms by (rule field_substract_correct)
  have m: "unat (operator_times_eq N element f) = (unat element * unat f) mod unat N"
    unfolding operator_times_eq_def using assms by (rule field_multiply_correct)
  have "operator_plus_eq N element f < N"
    using n by (simp add: word_less_nat_alt a)
  moreover have "operator_minus_eq N element f < N"
    using ni by (simp add: word_less_def s)
  moreover have "operator_times_eq N element f < N"
    using n by (simp add: word_less_nat_alt m)
  ultimately show ?thesis using a s m by simp
qed

theorem multi_field_operators_mod_witness:
  "(4294967290 :: 32 word) < 4294967291 \<and> (4294967289 :: 32 word) < 4294967291
   \<and> operator_plus_eq 4294967291 4294967290 4294967289 = 4294967288
   \<and> operator_minus_eq 4294967291 4294967289 4294967290 = 4294967290
   \<and> operator_times_eq 4294967291 4294967290 4294967289 = 2
   \<and> unat (operator_plus_eq 4294967291 4294967290 4294967289)
        = (unat (4294967290 :: 32 word) + unat (4294967289 :: 32 word)) mod unat (4294967291 :: 32 word)"
proof -
  have h1: "(4294967290 :: 32 word) < 4294967291" by simp
  have h2: "(4294967289 :: 32 word) < 4294967291" by simp
  have e1: "operator_plus_eq 4294967291 4294967290 4294967289 = 4294967288" by code_simp
  have e2: "operator_minus_eq 4294967291 4294967289 4294967290 = 4294967290" by code_simp
  have e3: "operator_times_eq 4294967291 4294967290 4294967289 = 2" by code_simp
  show ?thesis
    using multi_field_operators_mod [OF h1 h2] h1 h2 e1 e2 e3 by simp
qed

section \<open>The primality test and \<^verbatim>\<open>initialize\<close>\<close>

lemma square_less_imp_less:
  fixes d i :: int
  assumes "d * d < i * i" and "0 \<le> i" and "0 \<le> d"
  shows "d < i"
proof (rule ccontr)
  assume "\<not> d < i"
  then have "i \<le> d" by simp
  then have "i * i \<le> d * d" using assms(2) by (intro mult_mono) simp_all
  with assms(1) show False by simp
qed

lemma square_below:
  fixes d k i p :: int
  assumes "d * d \<le> d * k" and k: "p = d * k" and F: "\<not> i * i \<le> p"
  shows "d * d < i * i"
proof -
  from F have "p < i * i" by (simp only: not_le)
  then have "d * k < i * i" by (simp only: k)
  with assms(1) show ?thesis by (rule le_less_trans)
qed

lemma is_prime_loop_correct:
  "5 \<le> i \<Longrightarrow> i mod 6 = 5 \<Longrightarrow> 3 < p \<Longrightarrow> \<not> 2 dvd p \<Longrightarrow> \<not> 3 dvd p \<Longrightarrow>
   (\<forall>d. 2 \<le> d \<and> d < i \<longrightarrow> \<not> d dvd p) \<Longrightarrow>
   is_prime_loop p i \<longleftrightarrow> (\<forall>d. 2 \<le> d \<and> d < p \<longrightarrow> \<not> d dvd p)"
proof (induction p i rule: is_prime_loop.induct)
  case (1 p i)
  note i5 = \<open>5 \<le> i\<close> and i6 = \<open>i mod 6 = 5\<close> and p3 = \<open>3 < p\<close>
    and n2 = \<open>\<not> 2 dvd p\<close> and n3 = \<open>\<not> 3 dvd p\<close>
    and below = \<open>\<forall>d. 2 \<le> d \<and> d < i \<longrightarrow> \<not> d dvd p\<close>
  show ?case
  proof (cases "i * i \<le> p")
    case True
    have "i * 5 \<le> i * i" using i5 by (intro mult_left_mono) simp_all
    then have big: "i + 2 < i * i" using i5 by linarith
    with True have ip: "i + 2 < p" by linarith
    show ?thesis
    proof (cases "p mod i = 0 \<or> p mod (i + 2) = 0")
      case divides: True
      then have f: "\<not> is_prime_loop p i"
        using True by (subst is_prime_loop.simps) simp
      from divides have "i dvd p \<or> (i + 2) dvd p" by (simp add: dvd_eq_mod_eq_0)
      then have "\<exists>d. 2 \<le> d \<and> d < p \<and> d dvd p"
      proof
        assume "i dvd p"
        moreover have "2 \<le> i" "i < p" using i5 ip by simp_all
        ultimately show ?thesis by blast
      next
        assume "(i + 2) dvd p"
        moreover have "2 \<le> i + 2" using i5 by simp
        ultimately show ?thesis using ip by blast
      qed
      with f show ?thesis by blast
    next
      case nodiv: False
      then have ni: "\<not> i dvd p" and ni2: "\<not> (i + 2) dvd p" by (simp_all add: dvd_eq_mod_eq_0)
      have step: "is_prime_loop p i = is_prime_loop p (i + 6)"
        using True nodiv by (subst is_prime_loop.simps) simp
      have below': "\<forall>d. 2 \<le> d \<and> d < i + 6 \<longrightarrow> \<not> d dvd p"
      proof (intro allI impI notI)
        fix d assume d: "2 \<le> d \<and> d < i + 6" and dp: "d dvd p"
        consider "d < i" | "d = i" | "d = i + 1" | "d = i + 2" | "d = i + 3" | "d = i + 4" | "d = i + 5"
          using d by linarith
        then show False
        proof cases
          case 1 then show ?thesis using below d dp by blast
        next
          case 2 then show ?thesis using ni dp by simp
        next
          case 3
          have "2 dvd (i + 1)" using i6 by presburger
          then have "2 dvd p" using dp 3 by (metis dvd_trans)
          then show ?thesis using n2 by simp
        next
          case 4 then show ?thesis using ni2 dp by simp
        next
          case 5
          have "2 dvd (i + 3)" using i6 by presburger
          then have "2 dvd p" using dp 5 by (metis dvd_trans)
          then show ?thesis using n2 by simp
        next
          case 6
          have "3 dvd (i + 4)" using i6 by presburger
          then have "3 dvd p" using dp 6 by (metis dvd_trans)
          then show ?thesis using n3 by simp
        next
          case 7
          have "2 dvd (i + 5)" using i6 by presburger
          then have "2 dvd p" using dp 7 by (metis dvd_trans)
          then show ?thesis using n2 by simp
        qed
      qed
      have "5 \<le> i + 6" using i5 by simp
      moreover have "(i + 6) mod 6 = 5" using i6 by presburger
      ultimately have "is_prime_loop p (i + 6) \<longleftrightarrow> (\<forall>d. 2 \<le> d \<and> d < p \<longrightarrow> \<not> d dvd p)"
        using "1.IH" [OF True nodiv] p3 n2 n3 below' by blast
      with step show ?thesis by simp
    qed
  next
    case False
    then have t: "is_prime_loop p i" by (subst is_prime_loop.simps) simp
    have "\<not> d dvd p" if d: "2 \<le> d \<and> d < p" for d
    proof
      assume "d dvd p"
      then obtain k where k: "p = d * k" by (auto simp: dvd_def)
      have kpos: "0 < k"
      proof -
        have "0 < d * k" using k p3 by simp
        moreover have "0 < d" using d by simp
        ultimately show ?thesis by (simp add: zero_less_mult_iff)
      qed
      have k2: "2 \<le> k"
      proof (rule ccontr)
        assume "\<not> 2 \<le> k"
        with kpos have "k = 1" by simp
        with k d show False by simp
      qed
      have kp: "k dvd p" using k by simp
      have i0: "0 \<le> i" using i5 by simp
      show False
      proof (cases "d \<le> k")
        case True
        then have "d * d \<le> d * k" using d by (intro mult_left_mono) simp_all
        then have "d * d < i * i" using k False by (rule square_below)
        moreover have "0 \<le> d" using d by simp
        ultimately have "d < i" by (rule square_less_imp_less [OF _ i0])
        with below d \<open>d dvd p\<close> show False by blast
      next
        case nle: False
        then have "k * k \<le> k * d" using kpos by (intro mult_left_mono) simp_all
        moreover have "p = k * d" by (simp only: k mult.commute)
        ultimately have "k * k < i * i" using False by (rule square_below)
        moreover have "0 \<le> k" using kpos by simp
        ultimately have "k < i" by (rule square_less_imp_less [OF _ i0])
        with below k2 kp show False by blast
      qed
    qed
    with t show ?thesis by blast
  qed
qed

lemma is_prime_int:
  "is_prime p \<longleftrightarrow> 1 < p \<and> (\<forall>d. 2 \<le> d \<and> d < p \<longrightarrow> \<not> d dvd p)"
proof -
  consider "p \<le> 1" | "p = 2" | "p = 3" | "3 < p" "2 dvd p \<or> 3 dvd p" | "3 < p" "\<not> 2 dvd p" "\<not> 3 dvd p"
    by linarith
  then show ?thesis
  proof cases
    case 1 then show ?thesis by (simp add: is_prime_def)
  next
    case 2 then show ?thesis by (auto simp: is_prime_def)
  next
    case 3
    have "\<not> d dvd (3::int)" if "2 \<le> d \<and> d < 3" for d
    proof -
      from that have "d = 2" by simp
      then show ?thesis by simp
    qed
    with 3 show ?thesis by (simp add: is_prime_def)
  next
    case 4
    from 4(2) have "p mod 2 = 0 \<or> p mod 3 = 0" by presburger
    then have "\<not> is_prime p" using 4(1) by (simp add: is_prime_def)
    moreover from 4 have "(2 \<le> (2::int) \<and> 2 < p \<and> 2 dvd p) \<or> (2 \<le> (3::int) \<and> 3 < p \<and> 3 dvd p)"
      by auto
    then have "\<exists>d. 2 \<le> d \<and> d < p \<and> d dvd p" by blast
    ultimately show ?thesis by blast
  next
    case 5
    have below: "\<forall>d. 2 \<le> d \<and> d < 5 \<longrightarrow> \<not> d dvd p"
    proof (intro allI impI notI)
      fix d :: int assume d: "2 \<le> d \<and> d < 5" and dp: "d dvd p"
      then consider "d = 2" | "d = 3" | "d = 4" by linarith
      then show False
      proof cases
        case 1 then show ?thesis using dp 5 by simp
      next
        case 2 then show ?thesis using dp 5 by simp
      next
        case 3
        have "(2::int) dvd 4" by simp
        then have "2 dvd p" using dp 3 by (metis dvd_trans)
        then show ?thesis using 5 by simp
      qed
    qed
    from 5 have "\<not> (p mod 2 = 0 \<or> p mod 3 = 0)" by presburger
    then have "is_prime p = is_prime_loop p 5"
      using 5(1) by (simp add: is_prime_def)
    also have "\<dots> \<longleftrightarrow> (\<forall>d. 2 \<le> d \<and> d < p \<longrightarrow> \<not> d dvd p)"
      using 5 below by (intro is_prime_loop_correct) simp_all
    finally show ?thesis using 5 by simp
  qed
qed

lemma is_prime_nat: "is_prime (int n) \<longleftrightarrow> prime_nat n"
proof -
  have "(\<forall>d. 2 \<le> d \<and> d < int n \<longrightarrow> \<not> d dvd int n) \<longleftrightarrow> (\<forall>d\<in>{2..<n}. \<not> d dvd n)"
  proof
    assume a: "\<forall>d. 2 \<le> d \<and> d < int n \<longrightarrow> \<not> d dvd int n"
    show "\<forall>d\<in>{2..<n}. \<not> d dvd n"
    proof
      fix d assume "d \<in> {2..<n}"
      then have "2 \<le> int d \<and> int d < int n" by simp
      with a have "\<not> int d dvd int n" by blast
      then show "\<not> d dvd n" by simp
    qed
  next
    assume a: "\<forall>d\<in>{2..<n}. \<not> d dvd n"
    show "\<forall>d. 2 \<le> d \<and> d < int n \<longrightarrow> \<not> d dvd int n"
    proof (intro allI impI)
      fix d :: int assume d: "2 \<le> d \<and> d < int n"
      then have "nat d \<in> {2..<n}" by auto
      with a have "\<not> nat d dvd n" by blast
      moreover have "int (nat d) = d" using d by simp
      ultimately show "\<not> d dvd int n" by (metis int_dvd_int_iff)
    qed
  qed
  then show ?thesis by (simp add: is_prime_int prime_nat_def)
qed


lemma primes_loop_result:
  assumes m: "unat maximum < 4294967295"
  shows "unat i \<le> Suc (unat maximum) \<Longrightarrow>
         primes_loop i maximum ps product =
           Some (ps @ filter (\<lambda>w. is_prime (sint w)) (map word_of_nat [unat i..<Suc (unat maximum)]),
                 product * prod_list (filter (\<lambda>w. is_prime (sint w))
                                        (map word_of_nat [unat i..<Suc (unat maximum)])))"
proof (induction "Suc (unat maximum) - unat i" arbitrary: i ps product)
  case 0
  then have "unat i = Suc (unat maximum)" by simp
  then have "\<not> i \<le> maximum" by (simp add: word_le_nat_alt)
  then have "primes_loop i maximum ps product = Some (ps, product)"
    by (subst primes_loop.simps) simp
  then show ?case using \<open>unat i = Suc (unat maximum)\<close> by simp
next
  case (Suc n)
  then have le: "unat i \<le> unat maximum" by simp
  then have ile: "i \<le> maximum" by (simp add: word_le_nat_alt)
  have "unat i + 1 < 4294967296" using le m by simp
  then have ui: "unat (i + 1) = Suc (unat i)" by (simp add: unat_word_ariths)
  have n: "n = Suc (unat maximum) - unat (i + 1)" using Suc(2) ui by simp
  have le': "unat (i + 1) \<le> Suc (unat maximum)" using le ui by simp
  have upt: "[unat i..<Suc (unat maximum)] = unat i # [unat (i + 1)..<Suc (unat maximum)]"
    using le ui by (simp add: upt_conv_Cons)
  have wi: "(word_of_nat (unat i) :: 32 word) = i" by simp
  show ?case
  proof (cases "is_prime (sint i)")
    case True
    then have "primes_loop i maximum ps product = primes_loop (i + 1) maximum (ps @ [i]) (product * i)"
      using ile by (subst primes_loop.simps) simp
    also note Suc(1) [OF n le', of "ps @ [i]" "product * i"]
    finally show ?thesis using True by (simp only: upt list.map wi filter.simps if_True prod_list.Cons append_Cons append_Nil append_assoc mult.assoc)
  next
    case False
    then have "primes_loop i maximum ps product = primes_loop (i + 1) maximum ps product"
      using ile by (subst primes_loop.simps) simp
    also note Suc(1) [OF n le', of ps product]
    finally show ?thesis using False by (simp only: upt list.map wi filter.simps if_False)
  qed
qed

lemma sint_of_nat_small:
  assumes "k < 2147483648"
  shows "sint (word_of_nat k :: 32 word) = int k"
proof -
  have u: "unat (word_of_nat k :: 32 word) = k"
    using assms by (simp add: unat_of_nat take_bit_nat_eq_self)
  then have "uint (word_of_nat k :: 32 word) = int k" by (metis uint_nat)
  moreover have "signed_take_bit 31 (int k) = int k"
    using assms by (intro signed_take_bit_int_eq_self) simp_all
  ultimately show ?thesis by (simp add: sint_uint)
qed

lemma is_prime_sint:
  assumes "unat (w :: 32 word) < 2147483648"
  shows "is_prime (sint w) = prime_nat (unat w)"
proof -
  have "sint (word_of_nat (unat w) :: 32 word) = int (unat w)"
    using assms by (rule sint_of_nat_small)
  then have "sint w = int (unat w)" by simp
  then show ?thesis by (simp only: is_prime_nat)
qed

lemma filter_is_prime_small:
  assumes "hi < 2147483648"
  shows "filter (\<lambda>w. is_prime (sint w)) (map (word_of_nat :: nat \<Rightarrow> 32 word) [lo..<Suc hi])
           = map word_of_nat (primes_in lo hi)"
proof -
  have "is_prime (sint (word_of_nat k :: 32 word)) = prime_nat k" if "k \<in> set [lo..<Suc hi]" for k
  proof -
    from that have "k \<le> hi" by auto
    with assms have "k < 2147483648" by simp
    then show ?thesis by (simp add: sint_of_nat_small is_prime_nat)
  qed
  then have "filter ((\<lambda>w. is_prime (sint w)) \<circ> (word_of_nat :: nat \<Rightarrow> 32 word)) [lo..<Suc hi]
               = filter prime_nat [lo..<Suc hi]"
    by (intro filter_cong) simp_all
  then show ?thesis by (simp only: filter_map primes_in_def)
qed

lemma prod_list_word_of_nat:
  "prod_list (map (word_of_nat :: nat \<Rightarrow> 32 word) xs) = word_of_nat (prod_list xs)"
  by (induction xs) simp_all

lemma unat_word_of_nat32: "unat (word_of_nat n :: 32 word) = n mod 2 ^ 32"
  by (simp add: unat_of_nat take_bit_eq_mod)

lemma primes_in_empty_interval: "hi < lo \<Longrightarrow> primes_in lo hi = []"
  by (simp add: primes_in_def)

lemma primes_in_below_two: "hi < 2 \<Longrightarrow> primes_in lo hi = []"
  by (auto simp: primes_in_def prime_nat_def filter_empty_conv)

lemma primes_in_single: "primes_in n n = (if prime_nat n then [n] else [])"
  by (simp add: primes_in_def)

lemma initialize_error_kind:
  "initialize minimum maximum = Some (Inl e) \<Longrightarrow>
   e = Invalid_argument ''Characteristic must be strictly positive''
   \<or> e = Invalid_argument ''The given interval is not valid.''
   \<or> e = Invalid_argument ''The given interval does not contain a prime number.''"
  by (auto simp: initialize_def split: if_splits option.splits prod.splits)

text \<open>
  Claim C6, amended. For every minimum and every maximum below \<open>2^31\<close>,
  \<^verbatim>\<open>initialize(minimum, maximum)\<close> returns; it throws, and then an invalid-argument
  error, exactly when the maximum is below 2, or the minimum is above the maximum, or no prime number lies in the interval; when it
  does not throw, \<^verbatim>\<open>primes_\<close> holds the primes of the interval and the characteristic is
  the product of these primes reduced modulo \<open>2^32\<close>, the size of an \<^verbatim>\<open>unsigned int\<close>.
\<close>

theorem initialize_small_interval:
  assumes "maximum < 2 ^ 31"
  shows "\<exists>r. initialize minimum maximum = Some r
           \<and> ((\<exists>msg. r = Inl (Invalid_argument msg)) \<longleftrightarrow> maximum < 2 \<or> maximum < minimum
                          \<or> primes_in (unat minimum) (unat maximum) = [])
           \<and> (isl r \<longleftrightarrow> maximum < 2 \<or> maximum < minimum
                          \<or> primes_in (unat minimum) (unat maximum) = [])
           \<and> (\<forall>st. r = Inr st \<longrightarrow>
                 map unat (primes st) = primes_in (unat minimum) (unat maximum)
                 \<and> unat (productOfAllCharacteristics st)
                     = prod_list (primes_in (unat minimum) (unat maximum)) mod 2 ^ 32)"
proof -
  let ?lo = "unat minimum" and ?hi = "unat maximum"
  have hi: "?hi < 2147483648" using assms by (simp add: word_less_nat_alt)
  show ?thesis
  proof (cases "maximum < 2")
    case True
    then have "?hi < 2" by (simp add: word_less_nat_alt)
    then show ?thesis using True by (simp add: initialize_def)
  next
    case max2: False
    show ?thesis
    proof (cases "maximum < minimum")
      case True
      then show ?thesis using max2 by (simp add: initialize_def)
    next
      case order: False
      then have lohi: "?lo \<le> ?hi" by (simp add: word_less_nat_alt)
      have run: "primes_loop minimum maximum [] 1
                   = Some (map word_of_nat (primes_in ?lo ?hi),
                           word_of_nat (prod_list (primes_in ?lo ?hi)))"
      proof -
        have "?hi < 4294967295" using hi by simp
        moreover have "?lo \<le> Suc ?hi" using lohi by simp
        ultimately have "primes_loop minimum maximum [] 1 =
           Some ([] @ filter (\<lambda>w. is_prime (sint w)) (map word_of_nat [?lo..<Suc ?hi]),
                 1 * prod_list (filter (\<lambda>w. is_prime (sint w)) (map word_of_nat [?lo..<Suc ?hi])))"
          by (rule primes_loop_result)
        then show ?thesis
          by (simp only: filter_is_prime_small [OF hi] prod_list_word_of_nat append_Nil mult_1)
      qed
      have small: "\<forall>p\<in>set (primes_in ?lo ?hi). p < 2 ^ 32"
        using hi by (auto simp: primes_in_def)
      have roundtrip: "map unat (map (word_of_nat :: nat \<Rightarrow> 32 word) (primes_in ?lo ?hi)) = primes_in ?lo ?hi"
      proof -
        have "unat (word_of_nat p :: 32 word) = p" if "p \<in> set (primes_in ?lo ?hi)" for p
          using that small by (simp add: unat_of_nat take_bit_nat_eq_self)
        then show ?thesis by (simp add: map_idI)
      qed
      show ?thesis
      proof (cases "minimum = maximum \<and> \<not> is_prime (sint minimum)")
        case True
        then have eq: "minimum = maximum" and np: "\<not> is_prime (sint minimum)" by blast+
        have "?lo < 2147483648" using hi eq by simp
        then have "is_prime (sint minimum) = prime_nat ?lo" by (rule is_prime_sint)
        with np have "\<not> prime_nat ?lo" by simp
        then have pe: "primes_in ?hi ?hi = []" using eq by (simp add: primes_in_single)
        have np': "\<not> is_prime (sint maximum)" using np unfolding eq .
        have "initialize maximum maximum
                = Some (Inl (Invalid_argument ''The given interval does not contain a prime number.''))"
          using max2 np' by (simp add: initialize_def)
        then show ?thesis unfolding eq using pe by simp
      next
        case False
        show ?thesis
        proof (cases "primes_in ?lo ?hi = []")
          case True
          then show ?thesis using False max2 order run by (simp add: initialize_def)
        next
          case nonempty: False
          then show ?thesis
            using False max2 order run roundtrip
            by (simp add: initialize_def unat_word_of_nat32)
        qed
      qed
    qed
  qed
qed

theorem initialize_small_interval_witness:
  "(7 :: 32 word) < 2 ^ 31 \<and> (10 :: 32 word) < 2 ^ 31
   \<and> (\<exists>st. initialize 2 7 = Some (Inr st) \<and> map unat (primes st) = [2, 3, 5, 7]
          \<and> unat (productOfAllCharacteristics st) = 210)
   \<and> (\<exists>msg. initialize 8 10 = Some (Inl (Invalid_argument msg)))"
proof -
  have p1: "primes_in 2 7 = [2, 3, 5, 7]" by code_simp
  have p2: "primes_in 8 10 = []" by code_simp
  have h1: "(7 :: 32 word) < 2 ^ 31" by simp
  have h2: "(10 :: 32 word) < 2 ^ 31" by simp
  have u: "unat (2 :: 32 word) = 2" "unat (7 :: 32 word) = 7"
          "unat (8 :: 32 word) = 8" "unat (10 :: 32 word) = 10" by simp_all
  from initialize_small_interval [OF h1, of 2]
  obtain r1 where r1: "initialize 2 7 = Some r1"
    and e1: "isl r1 \<longleftrightarrow> (7 :: 32 word) < 2 \<or> (7 :: 32 word) < 2 \<or> primes_in 2 7 = []"
    and s1: "\<forall>st. r1 = Inr st \<longrightarrow> map unat (primes st) = primes_in 2 7
               \<and> unat (productOfAllCharacteristics st) = prod_list (primes_in 2 7) mod 2 ^ 32"
    unfolding u by blast
  from e1 have "\<not> isl r1" by (simp add: p1)
  then obtain st where st: "r1 = Inr st" by (cases r1) simp_all
  with s1 have "map unat (primes st) = [2, 3, 5, 7]"
    and "unat (productOfAllCharacteristics st) = 210" by (simp_all add: p1)
  with r1 st have first: "\<exists>st. initialize 2 7 = Some (Inr st) \<and> map unat (primes st) = [2, 3, 5, 7]
          \<and> unat (productOfAllCharacteristics st) = 210" by simp
  from initialize_small_interval [OF h2, of 8]
  obtain r2 where r2: "initialize 8 10 = Some r2"
    and e2: "(\<exists>msg. r2 = Inl (Invalid_argument msg))
               \<longleftrightarrow> (10 :: 32 word) < 2 \<or> (10 :: 32 word) < 8 \<or> primes_in 8 10 = []"
    unfolding u by blast
  from e2 obtain msg where "r2 = Inl (Invalid_argument msg)" by (auto simp: p2)
  with r2 have second: "\<exists>msg. initialize 8 10 = Some (Inl (Invalid_argument msg))" by simp
  from h1 h2 first second show ?thesis by (intro conjI)
qed

lemma primes_loop_2_29:
  "primes_loop 2 29 [] 1 = Some ([2, 3, 5, 7, 11, 13, 17, 19, 23, 29], 2174725934)"
  by code_simp

lemma primes_in_2_29: "primes_in 2 29 = [2, 3, 5, 7, 11, 13, 17, 19, 23, 29]"
  by code_simp

text \<open>
  Claim C6, as stated, fails: on the interval \<open>[2, 29]\<close> \<^verbatim>\<open>initialize\<close> succeeds, and the
  product of the ten primes, 6469693230, does not fit in 32 bits: the characteristic is set
  to 2174725934.
\<close>

theorem initialize_overflow_counterexample:
  "(case initialize 2 29 of
      Some (Inr st) \<Rightarrow>
        unat (productOfAllCharacteristics st) = 2174725934
        \<and> prod_list (primes_in 2 29) = 6469693230
    | _ \<Rightarrow> False)"
proof -
  have "initialize 2 29 =
          Some (Inr \<lparr>primes = [2, 3, 5, 7, 11, 13, 17, 19, 23, 29],
                      productOfAllCharacteristics = 2174725934,
                      partials = map (\<lambda>p. partial_loop 2174725934 (p - 1) (2174725934 div p) 1)
                                     [2, 3, 5, 7, 11, 13, 17, 19, 23, 29]\<rparr>)"
    by (simp add: initialize_def primes_loop_2_29)
  then show ?thesis by (simp add: primes_in_2_29)
qed

section \<open>Pivots of the chain columns\<close>

lemma consistent_imp_unique: "dictionary_consistent st \<Longrightarrow> unique_pivots st"
  unfolding dictionary_consistent_def unique_pivots_def chain_get_pivot_def
  by (metis option.inject)

lemma swap_pivots_store:
  assumes inv: "dictionary_consistent st"
    and t: "chains st t = Some this" and s: "chains st s = Some col"
    and p: "pivot this1 = pivot this"
  shows "\<exists>d this' col'. swap_pivots ops (pivotToColumnIndex st) this1 col = Inr (d, this', col')
           \<and> dictionary_consistent
                 (st\<lparr>chains := (chains st)(s \<mapsto> col', t \<mapsto> this'), pivotToColumnIndex := d\<rparr>)"
proof (cases "base_is_non_zero ops (base this1) (pivot this1)")
  case True
  have "dictionary_consistent (st\<lparr>chains := (chains st)(s \<mapsto> col, t \<mapsto> this1)\<rparr>)"
    using inv t s p unfolding dictionary_consistent_def by auto
  then show ?thesis using True by (simp add: swap_pivots_def)
next
  case False
  have dt: "pivotToColumnIndex st (pivot this) = Some t"
    and ds: "pivotToColumnIndex st (pivot col) = Some s"
    using inv t s unfolding dictionary_consistent_def by blast+
  let ?d = "(pivotToColumnIndex st)(pivot this \<mapsto> s, pivot col \<mapsto> t)"
  let ?this' = "this1\<lparr>pivot := pivot col\<rparr>" and ?col' = "col\<lparr>pivot := pivot this\<rparr>"
  have res: "swap_pivots ops (pivotToColumnIndex st) this1 col = Inr (?d, ?this', ?col')"
    using False dt ds p by (simp add: swap_pivots_def chain_get_pivot_def)
  have "dictionary_consistent
          (st\<lparr>chains := (chains st)(s \<mapsto> ?col', t \<mapsto> ?this'), pivotToColumnIndex := ?d\<rparr>)"
    unfolding dictionary_consistent_def
  proof (intro allI impI)
    fix i c
    assume c: "chains (st\<lparr>chains := (chains st)(s \<mapsto> ?col', t \<mapsto> ?this'), pivotToColumnIndex := ?d\<rparr>) i = Some c"
    consider "i = t" | "i \<noteq> t" "i = s" | "i \<noteq> t" "i \<noteq> s" by blast
    then show "pivotToColumnIndex (st\<lparr>chains := (chains st)(s \<mapsto> ?col', t \<mapsto> ?this'), pivotToColumnIndex := ?d\<rparr>) (pivot c) = Some i"
    proof cases
      case 1
      then show ?thesis using c by auto
    next
      case 2
      then have "pivot col \<noteq> pivot this" using dt ds by auto
      then show ?thesis using 2 c by auto
    next
      case 3
      then have ci: "chains st i = Some c" using c by simp
      then have di: "pivotToColumnIndex st (pivot c) = Some i"
        using inv unfolding dictionary_consistent_def by blast
      then have "pivot c \<noteq> pivot this" "pivot c \<noteq> pivot col" using dt ds 3 by auto
      then show ?thesis using di by simp
    qed
  qed
  with res show ?thesis by blast
qed

lemma apply_addition_consistent:
  assumes inv: "dictionary_consistent st" and dom: "addition_columns a \<subseteq> dom (chains st)"
  shows "\<exists>st'. apply_addition ops st a = Inr st' \<and> dom (chains st') = dom (chains st)
               \<and> dictionary_consistent st'"
proof (cases a)
  case (Plus_eq t s)
  with dom obtain this col where t: "chains st t = Some this" and s: "chains st s = Some col"
    by auto
  have d: "dom ((chains st)(s \<mapsto> x, t \<mapsto> y)) = dom (chains st)" for x y
    using t s by auto
  from swap_pivots_store [OF inv t s, of "this\<lparr>base := base_plus_eq ops (base this) (base col)\<rparr>" ops]
  show ?thesis using Plus_eq t s d by (auto simp: chain_plus_eq_def)
next
  case (Multiply_and_add_target v t s)
  with dom obtain this col where t: "chains st t = Some this" and s: "chains st s = Some col"
    by auto
  have d: "dom ((chains st)(s \<mapsto> x, t \<mapsto> y)) = dom (chains st)" for x y
    using t s by auto
  from swap_pivots_store [OF inv t s,
      of "this\<lparr>base := base_multiply_and_add_target ops v (base this) (base col)\<rparr>" ops]
  show ?thesis using Multiply_and_add_target t s d
    by (auto simp: chain_multiply_and_add_target_def)
next
  case (Multiply_and_add_source t s v)
  with dom obtain this col where t: "chains st t = Some this" and s: "chains st s = Some col"
    by auto
  have d: "dom ((chains st)(s \<mapsto> x, t \<mapsto> y)) = dom (chains st)" for x y
    using t s by auto
  from swap_pivots_store [OF inv t s,
      of "this\<lparr>base := base_multiply_and_add_source ops (base this) (base col) v\<rparr>" ops]
  show ?thesis using Multiply_and_add_source t s d
    by (auto simp: chain_multiply_and_add_source_def)
qed

text \<open>
  Claim C1. In a matrix of chain columns that share one pivot-to-column dictionary, the
  dictionary sending the pivot of every live column to that column, every finite sequence
  of additions between live columns (\<^verbatim>\<open>operator+=\<close> and both \<^verbatim>\<open>multiply_and_add\<close>) runs
  without an exception, whatever the base class does to the cells, and leaves the same
  columns alive, the dictionary consistent, and no two distinct live columns with the same
  pivot: the swap done when an addition zeroes the cell at the pivot of the target keeps
  one column per pivot.
\<close>

theorem chain_additions_keep_pivots_unique:
  assumes "dictionary_consistent st"
    and "\<forall>a\<in>set as. addition_columns a \<subseteq> dom (chains st)"
  shows "\<exists>st'. apply_additions ops st as = Inr st' \<and> dom (chains st') = dom (chains st)
               \<and> dictionary_consistent st' \<and> unique_pivots st'"
  using assms
proof (induction as arbitrary: st)
  case Nil
  then show ?case by (simp add: consistent_imp_unique)
next
  case (Cons a as)
  then have "addition_columns a \<subseteq> dom (chains st)" by simp
  with Cons.prems(1) obtain st1 where
    st1: "apply_addition ops st a = Inr st1" "dom (chains st1) = dom (chains st)"
         "dictionary_consistent st1"
    using apply_addition_consistent by blast
  have "\<forall>a\<in>set as. addition_columns a \<subseteq> dom (chains st1)"
    using Cons.prems(2) st1(2) by simp
  with Cons.IH [OF st1(3)] obtain st' where
    "apply_additions ops st1 as = Inr st'" "dom (chains st') = dom (chains st1)"
    "dictionary_consistent st'" "unique_pivots st'" by blast
  then show ?case using st1 by simp
qed


theorem chain_additions_keep_pivots_unique_witness:
  "dictionary_consistent
     \<lparr>chains = [0 \<mapsto> \<lparr>base = \<lparr>dim = 0, column = [1]\<rparr>, pivot = 1, pairedColumn = - 1\<rparr>,
                1 \<mapsto> \<lparr>base = \<lparr>dim = 0, column = [1, 2]\<rparr>, pivot = 2, pairedColumn = - 1\<rparr>],
      pivotToColumnIndex = [1 \<mapsto> 0, 2 \<mapsto> 1]\<rparr>
   \<and> (addition_columns (Plus_eq 0 1 :: 32 word addition)
         \<subseteq> dom [0 \<mapsto> \<lparr>base = \<lparr>dim = 0, column = [1 :: index]\<rparr>, pivot = 1 :: int, pairedColumn = - 1 :: int\<rparr>,
                1 \<mapsto> \<lparr>base = \<lparr>dim = 0, column = [1, 2]\<rparr>, pivot = 2, pairedColumn = - 1\<rparr>])
   \<and> (\<exists>st'. apply_additions z2_base
          \<lparr>chains = [0 \<mapsto> \<lparr>base = \<lparr>dim = 0, column = [1]\<rparr>, pivot = 1, pairedColumn = - 1\<rparr>,
                     1 \<mapsto> \<lparr>base = \<lparr>dim = 0, column = [1, 2]\<rparr>, pivot = 2, pairedColumn = - 1\<rparr>],
           pivotToColumnIndex = [1 \<mapsto> 0, 2 \<mapsto> 1]\<rparr>
          [Plus_eq 0 1] = Inr st'
        \<and> map_option chain_get_pivot (chains st' 0) = Some 2
        \<and> map_option chain_get_pivot (chains st' 1) = Some 1
        \<and> pivotToColumnIndex st' 2 = Some 0 \<and> pivotToColumnIndex st' 1 = Some 1
        \<and> unique_pivots st')"
proof -
  let ?st = "\<lparr>chains = [0 \<mapsto> \<lparr>base = \<lparr>dim = 0, column = [1 :: index]\<rparr>, pivot = 1, pairedColumn = - 1\<rparr>,
                1 \<mapsto> \<lparr>base = \<lparr>dim = 0, column = [1, 2]\<rparr>, pivot = 2, pairedColumn = - 1\<rparr>],
      pivotToColumnIndex = [1 \<mapsto> 0, 2 \<mapsto> 1]\<rparr>"
  have h1: "dictionary_consistent ?st"
    by (auto simp: dictionary_consistent_def split: if_splits)
  have h2: "\<forall>a\<in>set [Plus_eq 0 1 :: 32 word addition]. addition_columns a \<subseteq> dom (chains ?st)"
    by simp
  have run: "apply_additions z2_base ?st [Plus_eq 0 1] =
     Inr \<lparr>chains = [1 \<mapsto> \<lparr>base = \<lparr>dim = 0, column = [1, 2]\<rparr>, pivot = 1, pairedColumn = - 1\<rparr>,
                     0 \<mapsto> \<lparr>base = \<lparr>dim = 0, column = [2]\<rparr>, pivot = 2, pairedColumn = - 1\<rparr>],
           pivotToColumnIndex = [1 \<mapsto> 1, 2 \<mapsto> 0]\<rparr>"
    by (simp add: z2_base_def chain_plus_eq_def swap_pivots_def chain_get_pivot_def z2_add_def
        is_non_zero_def insert_cell_def fun_upd_twist)
  from chain_additions_keep_pivots_unique [OF h1 h2, of z2_base]
  show ?thesis using h1 h2 run by (auto simp: chain_get_pivot_def)
qed

section \<open>Adding and taking away a column\<close>














section \<open>The boundary matrix: removal of the last column\<close>

text \<open>
  Claim C9. On a matrix that holds no column (\<^verbatim>\<open>nextInsertIndex_ == 0\<close>),
  \<^verbatim>\<open>remove_last()\<close> returns -1, which is 4294967295 as an index, and leaves every member
  of the matrix and of its options as it was, whatever the options of the matrix.
\<close>

theorem remove_last_on_empty_matrix:
  "nextInsertIndex m = 0 \<Longrightarrow> remove_last opts m = Inr (m, - 1)"
  by (simp add: remove_last_def)

theorem remove_last_on_empty_matrix_witness:
  "nextInsertIndex empty_matrix = 0
   \<and> remove_last example_options empty_matrix = Inr (empty_matrix, 4294967295)"
  using remove_last_on_empty_matrix [of empty_matrix example_options]
  by (simp add: empty_matrix_def)

section \<open>Reads after row swaps\<close>

























lemma order_not_swapped: "\<not> rowSwapped e \<Longrightarrow> order_rows_if_swapped opts e = e"
  by (simp add: order_rows_if_swapped_def)














end
